theory Spec2Isabelle
  imports Main
begin

section \<open>Python values used by scripts/aggiungi_copertine.py\<close>

text \<open>
  A Python \<open>str\<close> is a sequence of Unicode code points, so \<open>len\<close> counts code points and a
  string read by \<open>json.load\<close> may hold a lone surrogate (the JSON text \<open>"\ud800"\<close>).
  A code point is a natural number below \<open>0x110000\<close>.
\<close>

type_synonym pystr = "nat list"

definition ascii :: "string \<Rightarrow> pystr" where
  "ascii s = map of_char s"

text \<open>
  Instances of Python's \<open>Exception\<close>. \<open>Library_error\<close> stands for any exception raised
  inside the HTTP client or the HTML library, with its text.
\<close>

datatype exn =
    AttributeError
  | TypeError
  | IndexError
  | UnicodeEncodeError
  | HTTPError nat
  | JSONDecodeError
  | Library_error pystr

text \<open>
  The values \<open>json.load\<close> produces. A float is kept as sign, mantissa and binary exponent,
  with the two infinities and NaN that the decoder accepts. An object keeps its keys in
  file order, as a Python \<open>dict\<close> does.
\<close>

datatype pyfloat = Finite bool nat int | Infinity bool | NaN

datatype json =
    JNull
  | JBool bool
  | JInt int
  | JFloat pyfloat
  | JStr pystr
  | JArr "json list"
  | JObj "(pystr \<times> json) list"

text \<open>Truth value testing, as \<open>if x:\<close> and \<open>not x\<close> do it.\<close>

fun float_nonzero :: "pyfloat \<Rightarrow> bool" where
  "float_nonzero (Finite s m e) = (m \<noteq> 0)"
| "float_nonzero (Infinity s) = True"
| "float_nonzero NaN = True"

fun truthy :: "json \<Rightarrow> bool" where
  "truthy JNull = False"
| "truthy (JBool b) = b"
| "truthy (JInt i) = (i \<noteq> 0)"
| "truthy (JFloat f) = float_nonzero f"
| "truthy (JStr s) = (s \<noteq> [])"
| "truthy (JArr xs) = (xs \<noteq> [])"
| "truthy (JObj kvs) = (kvs \<noteq> [])"

subsection \<open>String methods\<close>

text \<open>\<open>s.startswith(p)\<close>\<close>

definition startswith :: "pystr \<Rightarrow> pystr \<Rightarrow> bool" where
  "startswith s p = (take (length p) s = p)"

text \<open>\<open>sub in s\<close>\<close>

fun contains :: "pystr \<Rightarrow> pystr \<Rightarrow> bool" where
  "contains sub [] = (sub = [])"
| "contains sub (c # cs) = (startswith (c # cs) sub \<or> contains sub cs)"

text \<open>
  \<open>s.split(sep)\<close> for a non-empty separator: the text is cut at the occurrences of
  \<open>sep\<close>, found from the left and not overlapping. \<open>cur\<close> is the piece being read.
\<close>

fun split_from :: "pystr \<Rightarrow> pystr \<Rightarrow> pystr \<Rightarrow> pystr list" where
  "split_from sep cur [] = [cur]"
| "split_from sep cur (c # cs) =
     (if startswith (c # cs) sep
      then cur # split_from sep [] (drop (length sep - 1) cs)
      else split_from sep (cur @ [c]) cs)"

definition py_split :: "pystr \<Rightarrow> pystr \<Rightarrow> pystr list" where
  "py_split s sep = split_from sep [] s"

text \<open>\<open>xs[1]\<close>, which raises IndexError on a list of fewer than two items.\<close>

definition item1 :: "'a list \<Rightarrow> exn + 'a" where
  "item1 xs = (if 1 < length xs then Inr (xs ! 1) else Inl IndexError)"

text \<open>
  \<open>s.strip()\<close> removes the leading and trailing characters for which \<open>str.isspace\<close> holds.
\<close>

definition isspace :: "nat \<Rightarrow> bool" where
  "isspace c =
     ((9 \<le> c \<and> c \<le> 13) \<or> (28 \<le> c \<and> c \<le> 32) \<or> c = 133 \<or> c = 160 \<or> c = 5760
      \<or> (8192 \<le> c \<and> c \<le> 8202) \<or> c = 8232 \<or> c = 8233 \<or> c = 8239 \<or> c = 8287
      \<or> c = 12288)"

definition strip :: "pystr \<Rightarrow> pystr" where
  "strip s = rev (dropWhile isspace (rev (dropWhile isspace s)))"

subsection \<open>urllib.parse.quote\<close>

text \<open>
  \<open>quote(string)\<close> encodes the string as UTF-8 with \<open>errors='strict'\<close>, which raises
  UnicodeEncodeError on a surrogate code point, and then writes every byte outside the
  letters, the digits and \<open>_.-~/\<close> as \<open>%XX\<close>.
\<close>

definition utf8_char :: "nat \<Rightarrow> exn + nat list" where
  "utf8_char c =
     (if c < 128 then Inr [c]
      else if c < 2048 then Inr [192 + c div 64, 128 + c mod 64]
      else if 55296 \<le> c \<and> c \<le> 57343 then Inl UnicodeEncodeError
      else if c < 65536 then Inr [224 + c div 4096, 128 + (c div 64) mod 64, 128 + c mod 64]
      else Inr [240 + c div 262144, 128 + (c div 4096) mod 64, 128 + (c div 64) mod 64,
                128 + c mod 64])"

fun utf8_encode :: "pystr \<Rightarrow> exn + nat list" where
  "utf8_encode [] = Inr []"
| "utf8_encode (c # cs) =
     (case utf8_char c of
        Inl e \<Rightarrow> Inl e
      | Inr bs \<Rightarrow> (case utf8_encode cs of Inl e \<Rightarrow> Inl e | Inr rest \<Rightarrow> Inr (bs @ rest)))"

definition always_safe :: "nat \<Rightarrow> bool" where
  "always_safe b =
     ((65 \<le> b \<and> b \<le> 90) \<or> (97 \<le> b \<and> b \<le> 122) \<or> (48 \<le> b \<and> b \<le> 57)
      \<or> b = 95 \<or> b = 46 \<or> b = 45 \<or> b = 126 \<or> b = 47)"

definition hex_digit :: "nat \<Rightarrow> nat" where
  "hex_digit d = (if d < 10 then 48 + d else 55 + d)"

definition quote_byte :: "nat \<Rightarrow> pystr" where
  "quote_byte b = (if always_safe b then [b] else [37, hex_digit (b div 16), hex_digit (b mod 16)])"

definition quote :: "pystr \<Rightarrow> exn + pystr" where
  "quote s = (case utf8_encode s of Inl e \<Rightarrow> Inl e | Inr bs \<Rightarrow> Inr (concat (map quote_byte bs)))"

section \<open>The capabilities the script is given\<close>

text \<open>
  The HTTP client and the HTML library are capabilities: the script only issues GETs and
  asks for nodes by selector. \<open>'w\<close> is the state of the outside world, which a GET may read
  and change, so that two GETs of one address may answer differently; \<open>'n\<close> is a parsed
  document or one of its tags. \<open>format_value\<close> is \<open>str(v)\<close> for a value that is not
  a \<open>str\<close>. Writing to the console never fails in this model.
\<close>

record response =
  status_code :: nat
  resp_text :: pystr

record ('w, 'n) capabilities =
  requests_get :: "pystr \<Rightarrow> 'w \<Rightarrow> (exn + response) \<times> 'w"
  BeautifulSoup :: "pystr \<Rightarrow> exn + 'n"
  select :: "'n \<Rightarrow> pystr \<Rightarrow> exn + 'n list"
  select_one :: "'n \<Rightarrow> pystr \<Rightarrow> exn + 'n option"
  get_attr :: "'n \<Rightarrow> pystr \<Rightarrow> pystr option"
  format_value :: "json \<Rightarrow> pystr"

text \<open>\<open>response.raise_for_status()\<close> raises on a 4xx or 5xx status.\<close>

definition raise_for_status :: "response \<Rightarrow> exn option" where
  "raise_for_status r =
     (if 400 \<le> status_code r \<and> status_code r < 600 then Some (HTTPError (status_code r))
      else None)"

text \<open>
  What a run does to the outside, in order. Every \<open>print\<close> of the source is one
  constructor of \<open>msg\<close>, holding the values the message is formatted from.
\<close>

datatype msg =
    Searching_ibs json json         \<comment> \<open>line 37\<close>
  | No_results json json            \<comment> \<open>line 48\<close>
  | Link_not_found json             \<comment> \<open>line 57\<close>
  | Opening_page pystr              \<comment> \<open>line 65\<close>
  | Cover_with_isbn pystr           \<comment> \<open>line 89\<close>
  | Cover_in_page pystr             \<comment> \<open>line 99\<close>
  | No_cover json                   \<comment> \<open>line 102\<close>
  | Ibs_error json exn              \<comment> \<open>line 106\<close>
  | File_not_found                  \<comment> \<open>line 114\<close>
  | Has_cover nat nat json          \<comment> \<open>line 132\<close>
  | No_title nat nat                \<comment> \<open>line 136\<close>
  | Searching_cover nat nat json json  \<comment> \<open>line 139\<close>
  | Cover_added json                \<comment> \<open>line 147\<close>
  | Cover_not_found json            \<comment> \<open>line 149\<close>
  | Completed nat nat               \<comment> \<open>line 158\<close>

datatype event =
    Print msg
  | Get pystr                       \<comment> \<open>\<open>requests.get\<close> called with this address\<close>
  | Resolver_call nat json json     \<comment> \<open>\<open>get_cover_from_ibs\<close> called for record number \<open>processed\<close>\<close>
  | Write json                      \<comment> \<open>the catalog file opened for writing and this value dumped\<close>
  | Failed_write json               \<comment> \<open>the file opened for writing and \<open>json.dump\<close> of this value raising\<close>
  | Sleep nat

section \<open>get\_cover\_from\_ibs\<close>

definition origin :: pystr where
  "origin = ascii ''https://www.ibs.it''"

definition http :: pystr where
  "http = ascii ''http''"

definition e_sep :: pystr where
  "e_sep = ascii ''/e/''"

definition sel_item :: pystr where
  "sel_item = ascii ''.search-item-book''"

definition sel_link :: pystr where
  "sel_link = ascii ''.description a''"

definition sel_meta :: pystr where
  "sel_meta = ascii ''meta[property=\"og:url\"]''"

definition sel_img :: pystr where
  "sel_img = ascii ''img[src*=\"/images/\"][src*=\".jpg\"]''"

definition cover_template :: "pystr \<Rightarrow> pystr" where
  "cover_template isbn = ascii ''https://www.ibs.it/images/'' @ isbn @ ascii ''_0_0_536_0_75.jpg''"

text \<open>The value of \<open>{v}\<close> inside an f-string.\<close>

definition py_format :: "('w, 'n) capabilities \<Rightarrow> json \<Rightarrow> pystr" where
  "py_format caps v = (case v of JStr s \<Rightarrow> s | _ \<Rightarrow> format_value caps v)"

text \<open>Lines 23 to 27: the search address, built before the \<open>try\<close>.\<close>

definition search_url_of :: "('w, 'n) capabilities \<Rightarrow> json \<Rightarrow> json \<Rightarrow> exn + pystr" where
  "search_url_of caps title author =
     (let query = py_format caps title @ ascii '' '' @ py_format caps author in
      case quote query of
        Inl e \<Rightarrow> Inl e
      | Inr encoded_query \<Rightarrow> Inr (ascii ''https://www.ibs.it/search/?ts=as&query='' @ encoded_query))"

text \<open>\<open>requests.get(url, ...)\<close>, \<open>raise_for_status()\<close> and \<open>.text\<close> (lines 38-39, 42 and 66-67, 69).\<close>

definition fetch :: "('w, 'n) capabilities \<Rightarrow> pystr \<Rightarrow> 'w \<Rightarrow> (exn + pystr) \<times> 'w" where
  "fetch caps url w =
     (case requests_get caps url w of
        (Inl e, w') \<Rightarrow> (Inl e, w')
      | (Inr r, w') \<Rightarrow>
          (case raise_for_status r of
             Some e \<Rightarrow> (Inl e, w')
           | None \<Rightarrow> (Inr (resp_text r), w')))"

text \<open>
  Lines 42 to 58: the link tag of the first search result. \<open>Inr None\<close> is the early
  \<open>return ""\<close>.
\<close>

definition first_book_link ::
  "('w, 'n) capabilities \<Rightarrow> json \<Rightarrow> json \<Rightarrow> pystr \<Rightarrow> (exn + 'n option) \<times> event list" where
  "first_book_link caps title author page =
     (case BeautifulSoup caps page of
        Inl e \<Rightarrow> (Inl e, [])
      | Inr soup \<Rightarrow>
          (case select caps soup sel_item of
             Inl e \<Rightarrow> (Inl e, [])
           | Inr book_items \<Rightarrow>
               (case book_items of
                  [] \<Rightarrow> (Inr None, [Print (No_results title author)])
                | first_book # _ \<Rightarrow>
                    (case select_one caps first_book sel_link of
                       Inl e \<Rightarrow> (Inl e, [])
                     | Inr None \<Rightarrow> (Inr None, [Print (Link_not_found title)])
                     | Inr (Some book_link_element) \<Rightarrow> (Inr (Some book_link_element), [])))))"

text \<open>
  Lines 37 to 69: both GETs. The result is the address of the detail page and its parsed
  document, or \<open>None\<close> for the early \<open>return ""\<close>. A link tag without \<open>href\<close> gives
  \<open>None.startswith\<close>, an AttributeError.
\<close>

definition open_detail_page ::
  "('w, 'n) capabilities \<Rightarrow> json \<Rightarrow> json \<Rightarrow> pystr \<Rightarrow> 'w
     \<Rightarrow> (exn + (pystr \<times> 'n) option) \<times> event list \<times> 'w" where
  "open_detail_page caps title author search_url w =
     (let ev0 = [Print (Searching_ibs title author), Get search_url] in
      case fetch caps search_url w of
        (Inl e, w1) \<Rightarrow> (Inl e, ev0, w1)
      | (Inr page, w1) \<Rightarrow>
          (case first_book_link caps title author page of
             (Inl e, evs) \<Rightarrow> (Inl e, ev0 @ evs, w1)
           | (Inr None, evs) \<Rightarrow> (Inr None, ev0 @ evs, w1)
           | (Inr (Some book_link_element), evs) \<Rightarrow>
               (case get_attr caps book_link_element (ascii ''href'') of
                  None \<Rightarrow> (Inl AttributeError, ev0 @ evs, w1)
                | Some href \<Rightarrow>
                    (let book_link = (if \<not> startswith href http then origin @ href else href);
                         ev1 = ev0 @ evs @ [Print (Opening_page book_link), Get book_link] in
                     case fetch caps book_link w1 of
                       (Inl e, w2) \<Rightarrow> (Inl e, ev1, w2)
                     | (Inr book_page, w2) \<Rightarrow>
                         (case BeautifulSoup caps book_page of
                            Inl e \<Rightarrow> (Inl e, ev1, w2)
                          | Inr book_soup \<Rightarrow> (Inr (Some (book_link, book_soup)), ev1, w2))))))"

text \<open>Lines 72 to 77: \<open>isbn\<close> is \<open>None\<close>, or the second piece of the address cut at \<open>/e/\<close>.\<close>

definition url_isbn :: "pystr \<Rightarrow> exn + pystr option" where
  "url_isbn book_link =
     (if contains e_sep book_link
      then (case item1 (py_split book_link e_sep) of
              Inl e \<Rightarrow> Inl e
            | Inr part \<Rightarrow> Inr (Some (strip part)))
      else Inr None)"

text \<open>Lines 80 to 83: with no \<open>isbn\<close> yet (\<open>None\<close> or empty), the same from the \<open>og:url\<close> meta tag.\<close>

definition meta_isbn :: "('w, 'n) capabilities \<Rightarrow> 'n \<Rightarrow> pystr option \<Rightarrow> exn + pystr option" where
  "meta_isbn caps book_soup isbn =
     (if isbn \<noteq> None \<and> isbn \<noteq> Some [] then Inr isbn
      else
        (case select_one caps book_soup sel_meta of
           Inl e \<Rightarrow> Inl e
         | Inr None \<Rightarrow> Inr isbn
         | Inr (Some meta) \<Rightarrow>
             (if contains e_sep (case get_attr caps meta (ascii ''content'') of None \<Rightarrow> [] | Some c \<Rightarrow> c)
              then (case get_attr caps meta (ascii ''content'') of
                      None \<Rightarrow> Inl AttributeError
                    | Some c \<Rightarrow>
                        (case item1 (py_split c e_sep) of
                           Inl e \<Rightarrow> Inl e
                         | Inr part \<Rightarrow> Inr (Some (strip part))))
              else Inr isbn)))"

definition extract_isbn :: "('w, 'n) capabilities \<Rightarrow> pystr \<Rightarrow> 'n \<Rightarrow> exn + pystr option" where
  "extract_isbn caps book_link book_soup =
     (case url_isbn book_link of
        Inl e \<Rightarrow> Inl e
      | Inr isbn \<Rightarrow> meta_isbn caps book_soup isbn)"

text \<open>Lines 93 to 103: the first image whose \<open>src\<close> has \<open>/images/\<close> and \<open>.jpg\<close>.\<close>

definition image_scan :: "('w, 'n) capabilities \<Rightarrow> json \<Rightarrow> 'n \<Rightarrow> (exn + pystr) \<times> event list" where
  "image_scan caps title book_soup =
     (case select_one caps book_soup sel_img of
        Inl e \<Rightarrow> (Inl e, [])
      | Inr None \<Rightarrow> (Inr [], [Print (No_cover title)])
      | Inr (Some cover_img) \<Rightarrow>
          (case get_attr caps cover_img (ascii ''src'') of
             None \<Rightarrow> (Inl AttributeError, [])
           | Some src \<Rightarrow>
               (let cover_url = (if \<not> startswith src http then origin @ src else src) in
                (Inr cover_url, [Print (Cover_in_page cover_url)]))))"

text \<open>Line 86: \<open>isbn and len(isbn) >= 10\<close>.\<close>

definition acceptable :: "pystr option \<Rightarrow> bool" where
  "acceptable isbn = (case isbn of None \<Rightarrow> False | Some t \<Rightarrow> t \<noteq> [] \<and> 10 \<le> length t)"

text \<open>Lines 72 to 103.\<close>

definition cover_from_detail ::
  "('w, 'n) capabilities \<Rightarrow> json \<Rightarrow> pystr \<Rightarrow> 'n \<Rightarrow> (exn + pystr) \<times> event list" where
  "cover_from_detail caps title book_link book_soup =
     (case extract_isbn caps book_link book_soup of
        Inl e \<Rightarrow> (Inl e, [])
      | Inr isbn \<Rightarrow>
          (case isbn of
             None \<Rightarrow> image_scan caps title book_soup
           | Some t \<Rightarrow>
               (if acceptable isbn
                then (Inr (cover_template t), [Print (Cover_with_isbn (cover_template t))])
                else image_scan caps title book_soup)))"

text \<open>The body of the \<open>try\<close>, lines 36 to 103.\<close>

definition lookup ::
  "('w, 'n) capabilities \<Rightarrow> json \<Rightarrow> json \<Rightarrow> pystr \<Rightarrow> 'w \<Rightarrow> (exn + pystr) \<times> event list \<times> 'w" where
  "lookup caps title author search_url w =
     (case open_detail_page caps title author search_url w of
        (Inl e, evs, w') \<Rightarrow> (Inl e, evs, w')
      | (Inr None, evs, w') \<Rightarrow> (Inr [], evs, w')
      | (Inr (Some (book_link, book_soup)), evs, w') \<Rightarrow>
          (case cover_from_detail caps title book_link book_soup of
             (r, evs2) \<Rightarrow> (r, evs @ evs2, w')))"

text \<open>
  The whole function: \<open>Inl e\<close> is an exception that reaches the caller, \<open>Inr url\<close> the
  returned string. The \<open>except Exception\<close> of line 105 covers \<open>lookup\<close> only.
\<close>

definition get_cover_from_ibs ::
  "('w, 'n) capabilities \<Rightarrow> json \<Rightarrow> json \<Rightarrow> 'w \<Rightarrow> (exn + pystr) \<times> event list \<times> 'w" where
  "get_cover_from_ibs caps title author w =
     (case search_url_of caps title author of
        Inl e \<Rightarrow> (Inl e, [], w)
      | Inr search_url \<Rightarrow>
          (case lookup caps title author search_url w of
             (Inl e, evs, w') \<Rightarrow> (Inr [], evs @ [Print (Ibs_error title e)], w')
           | (Inr cover_url, evs, w') \<Rightarrow> (Inr cover_url, evs, w')))"

section \<open>enrich\_books\_with\_ibs\_covers\<close>

text \<open>
  The catalog file at \<open>BOOKS_PATH\<close>: missing, holding text that is not JSON (an empty or
  a truncated file is such), or holding a JSON document, kept as the value \<open>json.load\<close>
  decodes it to.
\<close>

datatype disk = Missing | Garbage | Json json

text \<open>\<open>d.get(key, default)\<close> and \<open>d[key] = v\<close> on a \<open>dict\<close>, which keeps the place of a key it has.\<close>

fun dict_get :: "(pystr \<times> json) list \<Rightarrow> pystr \<Rightarrow> json \<Rightarrow> json" where
  "dict_get [] k d = d"
| "dict_get ((k', v) # kvs) k d = (if k' = k then v else dict_get kvs k d)"

fun dict_set :: "(pystr \<times> json) list \<Rightarrow> pystr \<Rightarrow> json \<Rightarrow> (pystr \<times> json) list" where
  "dict_set [] k v = [(k, v)]"
| "dict_set ((k', v') # kvs) k v = (if k' = k then (k, v) # kvs else (k', v') # dict_set kvs k v)"

text \<open>
  Line 131: \<open>book.get("cover_url") and book.get("cover_url").strip()\<close>, as a truth value.
  A value that is true and not a \<open>str\<close> has no \<open>strip\<close>.
\<close>

definition has_cover :: "(pystr \<times> json) list \<Rightarrow> exn + bool" where
  "has_cover kvs =
     (let c = dict_get kvs (ascii ''cover_url'') JNull in
      if \<not> truthy c then Inr False
      else (case c of JStr s \<Rightarrow> Inr (strip s \<noteq> []) | _ \<Rightarrow> Inl AttributeError))"

text \<open>
  Lines 126 to 149, one pass of the loop body up to the save: the record is skipped, or an
  exception leaves the loop, or the resolver has answered and the record, changed or
  not, is to be saved. A record that is not a \<open>dict\<close> has no \<open>get\<close>.
\<close>

datatype 'w step =
    Skipped "event list"
  | Aborted exn "event list" 'w
  | Looked_up json bool "event list" 'w

definition process_book ::
  "('w, 'n) capabilities \<Rightarrow> nat \<Rightarrow> nat \<Rightarrow> json \<Rightarrow> 'w \<Rightarrow> 'w step" where
  "process_book caps total_books processed book w =
     (case book of
        JObj kvs \<Rightarrow>
          (let title = dict_get kvs (ascii ''title'') (JStr []);
               author = dict_get kvs (ascii ''author'') (JStr []) in
           case has_cover kvs of
             Inl e \<Rightarrow> Aborted e [] w
           | Inr True \<Rightarrow> Skipped [Print (Has_cover processed total_books title)]
           | Inr False \<Rightarrow>
               (if \<not> truthy title then Skipped [Print (No_title processed total_books)]
                else
                  (let ev0 = [Print (Searching_cover processed total_books title author),
                              Resolver_call processed title author] in
                   case get_cover_from_ibs caps title author w of
                     (Inl e, evs, w') \<Rightarrow> Aborted e (ev0 @ evs) w'
                   | (Inr cover_url, evs, w') \<Rightarrow>
                       (if cover_url \<noteq> []
                        then Looked_up (JObj (dict_set kvs (ascii ''cover_url'') (JStr cover_url))) True
                               (ev0 @ evs @ [Print (Cover_added title)]) w'
                        else Looked_up book False (ev0 @ evs @ [Print (Cover_not_found title)]) w'))))
      | _ \<Rightarrow> Aborted AttributeError [] w)"

text \<open>
  The state of a run when it ends: the exception that ended it, if any, what it did, the
  list \<open>books\<close> in memory, the counter \<open>updated\<close>, the file and the world.
\<close>

record 'w run =
  raised :: "exn option"
  trace :: "event list"
  books_now :: "json list"
  updated_now :: nat
  disk_now :: disk
  world_now :: 'w

definition after :: "event list \<Rightarrow> 'w run \<Rightarrow> 'w run" where
  "after evs r = r\<lparr>trace := evs @ trace r\<rparr>"

text \<open>
  The save of lines 152 and 153 opens the file with \<open>encoding="utf-8"\<close> and dumps with
  \<open>ensure_ascii=False\<close>, so every string of the catalog, key or value, is written as it
  is and encoded as UTF-8 with \<open>errors='strict'\<close>: a surrogate code point anywhere raises
  UnicodeEncodeError. The file was truncated when it was opened and holds by then the
  text before that string only, which is not a JSON document. A save fails in no other
  way here: a full disk or a file that may not be written is not modelled.
\<close>

definition encodes :: "pystr \<Rightarrow> bool" where
  "encodes s = (case utf8_encode s of Inl e \<Rightarrow> False | Inr bs \<Rightarrow> True)"

fun dumpable :: "json \<Rightarrow> bool" where
  "dumpable (JStr s) = encodes s"
| "dumpable (JArr xs) = list_all dumpable xs"
| "dumpable (JObj kvs) = list_all (\<lambda>kv. encodes (fst kv) \<and> dumpable (snd kv)) kvs"
| "dumpable v = True"

text \<open>
  The loop of lines 125 to 156 over a list. \<open>seen\<close> holds the records already passed,
  as they now are, \<open>book # rest\<close> those still to come; the records are distinct objects
  (each is built by \<open>json.load\<close>), so changing one changes one place of the list. The
  save of line 153 writes the whole list; when it raises, the loop is left with the file
  truncated.
\<close>

fun process_books ::
  "('w, 'n) capabilities \<Rightarrow> nat \<Rightarrow> json list \<Rightarrow> json list \<Rightarrow> nat \<Rightarrow> nat \<Rightarrow> disk \<Rightarrow> 'w \<Rightarrow> 'w run" where
  "process_books caps total_books seen [] processed updated d w =
     \<lparr>raised = None, trace = [], books_now = seen, updated_now = updated, disk_now = d,
      world_now = w\<rparr>"
| "process_books caps total_books seen (book # rest) processed updated d w =
     (case process_book caps total_books (processed + 1) book w of
        Skipped evs \<Rightarrow>
          after evs (process_books caps total_books (seen @ [book]) rest (processed + 1) updated d w)
      | Aborted e evs w' \<Rightarrow>
          \<lparr>raised = Some e, trace = evs, books_now = seen @ book # rest, updated_now = updated,
           disk_now = d, world_now = w'\<rparr>
      | Looked_up book' found evs w' \<Rightarrow>
          (if dumpable (JArr (seen @ book' # rest))
           then after (evs @ [Write (JArr (seen @ book' # rest)), Sleep 2])
                  (process_books caps total_books (seen @ [book']) rest (processed + 1)
                     (if found then updated + 1 else updated)
                     (Json (JArr (seen @ book' # rest))) w')
           else \<lparr>raised = Some UnicodeEncodeError,
                 trace = evs @ [Failed_write (JArr (seen @ book' # rest))],
                 books_now = seen @ book' # rest,
                 updated_now = (if found then updated + 1 else updated),
                 disk_now = Garbage, world_now = w'\<rparr>))"

text \<open>
  The whole function. \<open>len(books)\<close> raises TypeError on a value without a length; a
  \<open>for\<close> over a non-empty \<open>dict\<close> or \<open>str\<close> yields a \<open>str\<close>, which has no \<open>get\<close>.
\<close>

definition finish :: "nat \<Rightarrow> 'w run \<Rightarrow> 'w run" where
  "finish total_books r =
     (if raised r = None then r\<lparr>trace := trace r @ [Print (Completed (updated_now r) total_books)]\<rparr>
      else r)"

definition stopped :: "exn option \<Rightarrow> event list \<Rightarrow> disk \<Rightarrow> 'w \<Rightarrow> 'w run" where
  "stopped e evs d w =
     \<lparr>raised = e, trace = evs, books_now = [], updated_now = 0, disk_now = d, world_now = w\<rparr>"

definition enrich_books_with_ibs_covers :: "('w, 'n) capabilities \<Rightarrow> disk \<Rightarrow> 'w \<Rightarrow> 'w run" where
  "enrich_books_with_ibs_covers caps d w =
     (case d of
        Missing \<Rightarrow> stopped None [Print File_not_found] d w
      | Garbage \<Rightarrow> stopped (Some JSONDecodeError) [] d w
      | Json v \<Rightarrow>
          (case v of
             JArr books \<Rightarrow> finish (length books) (process_books caps (length books) [] books 0 0 d w)
           | JObj kvs \<Rightarrow>
               (if kvs = [] then stopped None [Print (Completed 0 0)] d w
                else stopped (Some AttributeError) [] d w)
           | JStr s \<Rightarrow>
               (if s = [] then stopped None [Print (Completed 0 0)] d w
                else stopped (Some AttributeError) [] d w)
           | _ \<Rightarrow> stopped (Some TypeError) [] d w))"

section \<open>Reading a trace\<close>

text \<open>The values written to the file, the addresses fetched, and the record numbers the
  resolver was called for, each in order.\<close>

fun writes :: "event list \<Rightarrow> json list" where
  "writes [] = []"
| "writes (Write v # evs) = v # writes evs"
| "writes (_ # evs) = writes evs"

fun gets :: "event list \<Rightarrow> pystr list" where
  "gets [] = []"
| "gets (Get url # evs) = url # gets evs"
| "gets (_ # evs) = gets evs"

fun calls :: "event list \<Rightarrow> nat list" where
  "calls [] = []"
| "calls (Resolver_call n t a # evs) = n # calls evs"
| "calls (_ # evs) = calls evs"

text \<open>Resolver calls and saves only: \<open>Some n\<close> is a call for record \<open>n\<close>, \<open>None\<close> a save.\<close>

fun shape :: "event list \<Rightarrow> nat option list" where
  "shape [] = []"
| "shape (Resolver_call n t a # evs) = Some n # shape evs"
| "shape (Write v # evs) = None # shape evs"
| "shape (_ # evs) = shape evs"

fun isbn_messages :: "event list \<Rightarrow> pystr list" where
  "isbn_messages [] = []"
| "isbn_messages (Print (Cover_with_isbn url) # evs) = url # isbn_messages evs"
| "isbn_messages (_ # evs) = isbn_messages evs"

section \<open>The words of the specification\<close>

text \<open>
  A record is eligible when it is skipped neither for a cover it has nor for a title it
  lacks.
\<close>

definition eligible :: "json \<Rightarrow> bool" where
  "eligible book =
     (case book of
        JObj kvs \<Rightarrow> has_cover kvs = Inr False \<and> truthy (dict_get kvs (ascii ''title'') (JStr []))
      | _ \<Rightarrow> False)"

text \<open>The numbers, counted from \<open>n\<close>, of the eligible records of a list.\<close>

fun eligible_from :: "nat \<Rightarrow> json list \<Rightarrow> nat list" where
  "eligible_from n [] = []"
| "eligible_from n (book # rest) =
     (if eligible book then n # eligible_from (Suc n) rest else eligible_from (Suc n) rest)"

text \<open>
  The text after the first occurrence of \<open>sep\<close> (empty when there is none), and the text
  before the first occurrence (all of it when there is none).
\<close>

fun after_first :: "pystr \<Rightarrow> pystr \<Rightarrow> pystr" where
  "after_first sep [] = []"
| "after_first sep (c # cs) =
     (if startswith (c # cs) sep then drop (length sep) (c # cs) else after_first sep cs)"

fun before_first :: "pystr \<Rightarrow> pystr \<Rightarrow> pystr" where
  "before_first sep [] = []"
| "before_first sep (c # cs) =
     (if startswith (c # cs) sep then [] else c # before_first sep cs)"

section \<open>A small site and small catalogs\<close>

text \<open>
  A site that answers every GET with status 200 and an empty text, has one search result with a link tag
  (node 2) of the given \<open>href\<close>, and a detail page with the given \<open>og:url\<close> content
  (node 3) and image \<open>src\<close> (node 4), each possibly absent. Its world counts the GETs.
\<close>

definition site :: "pystr option \<Rightarrow> pystr option \<Rightarrow> pystr option \<Rightarrow> (nat, nat) capabilities" where
  "site href meta img =
     \<lparr>requests_get = (\<lambda>url w. (Inr \<lparr>status_code = 200, resp_text = []\<rparr>, Suc w)),
      BeautifulSoup = (\<lambda>page. Inr 0),
      select = (\<lambda>n sel. Inr [1]),
      select_one = (\<lambda>n sel.
        if n = 1 then Inr (Some 2)
        else if hd sel = 109 then (case meta of None \<Rightarrow> Inr None | Some c \<Rightarrow> Inr (Some 3))
        else (case img of None \<Rightarrow> Inr None | Some s \<Rightarrow> Inr (Some 4))),
      get_attr = (\<lambda>n a. if n = 2 then href else if n = 3 then meta else img),
      format_value = (\<lambda>v. [])\<rparr>"

definition isbn_site :: "(nat, nat) capabilities" where
  "isbn_site = site (Some (ascii ''/libro/e/9788807034664'')) None (Some (ascii ''/images/a.jpg''))"

definition short_site :: "(nat, nat) capabilities" where
  "short_site = site (Some (ascii ''/libro/e/123456789'')) None (Some (ascii ''/images/a.jpg''))"

definition double_site :: "(nat, nat) capabilities" where
  "double_site = site (Some (ascii ''/libro/e/9788807034664/e/altro'')) None None"

definition query_site :: "(nat, nat) capabilities" where
  "query_site = site (Some (ascii ''/libro/e/9788807034664/x?y=1'')) None None"

definition silent_site :: "(nat, nat) capabilities" where
  "silent_site = site None None None"

definition book_T :: json where
  "book_T = JObj [(ascii ''title'', JStr (ascii ''T''))]"

definition book_covered :: json where
  "book_covered = JObj [(ascii ''title'', JStr (ascii ''A'')), (ascii ''cover_url'', JStr (ascii ''http://c/a.jpg''))]"

definition book_S :: json where
  "book_S = JObj [(ascii ''title'', JStr [56448])]"

definition book_noted :: json where
  "book_noted = JObj [(ascii ''title'', JStr (ascii ''T'')), (ascii ''note'', JStr [56448])]"

definition book_untitled :: json where
  "book_untitled = JObj [(ascii ''author'', JStr (ascii ''B''))]"

section \<open>Examples of the string functions\<close>

lemma quote_plain: "quote (ascii ''a b'') = Inr (ascii ''a%20b'')"
  by (simp add: quote_def ascii_def utf8_char_def quote_byte_def always_safe_def hex_digit_def)

lemma quote_accent: "quote [232] = Inr (ascii ''%C3%A8'')"
  by (simp add: quote_def ascii_def utf8_char_def quote_byte_def always_safe_def hex_digit_def)

lemma split_example:
  "py_split (ascii ''a/e/b/e/c'') (ascii ''/e/'') = [ascii ''a'', ascii ''b'', ascii ''c'']"
  by (simp add: py_split_def ascii_def startswith_def)

section \<open>Traces of concatenated runs\<close>

lemma writes_append [simp]: "writes (xs @ ys) = writes xs @ writes ys"
  by (induction xs rule: writes.induct) simp_all

lemma gets_append [simp]: "gets (xs @ ys) = gets xs @ gets ys"
  by (induction xs rule: gets.induct) simp_all

lemma calls_append [simp]: "calls (xs @ ys) = calls xs @ calls ys"
  by (induction xs rule: calls.induct) simp_all

lemma shape_append [simp]: "shape (xs @ ys) = shape xs @ shape ys"
  by (induction xs rule: shape.induct) simp_all

lemma isbn_messages_append [simp]:
  "isbn_messages (xs @ ys) = isbn_messages xs @ isbn_messages ys"
  by (induction xs rule: isbn_messages.induct) simp_all

section \<open>The resolver and exceptions\<close>

text \<open>
  \<open>quote\<close> raises exactly on a string that holds a surrogate code point. Once the
  search address is built, nothing reaches the caller: every exception of the \<open>try\<close>
  body becomes the empty string.
\<close>

lemma quote_raises_iff:
  "(\<exists>e. quote s = Inl e) \<longleftrightarrow> (\<exists>c \<in> set s. 55296 \<le> c \<and> c \<le> 57343)"
proof -
  have "(\<exists>e. utf8_encode s = Inl e) \<longleftrightarrow> (\<exists>c \<in> set s. 55296 \<le> c \<and> c \<le> 57343)"
    by (induction s) (auto simp: utf8_char_def split: sum.splits)
  then show ?thesis
    by (auto simp: quote_def split: sum.splits)
qed

lemma resolver_returns:
  "search_url_of caps title author = Inr u \<Longrightarrow>
   \<exists>url evs w'. get_cover_from_ibs caps title author w = (Inr url, evs, w')"
  by (simp add: get_cover_from_ibs_def split: prod.splits sum.splits)

text \<open>
  C3: the resolver never raises to its caller, whatever the title, the author and the
  behaviour of the HTTP and HTML capabilities. The code breaks this: the query is
  encoded by \<open>quote\<close> on line 24, before the \<open>try\<close> of line 35, and \<open>quote\<close> raises
  UnicodeEncodeError on a title holding a lone surrogate (here U+DC80). The exception
  reaches the caller, with no GET issued and nothing logged.
\<close>

theorem resolver_raises_on_surrogate:
  "get_cover_from_ibs caps (JStr [56448]) (JStr []) w = (Inl UnicodeEncodeError, [], w)"
  by (simp add: get_cover_from_ibs_def search_url_of_def py_format_def quote_def utf8_char_def)

theorem resolver_raises_on_surrogate_witness:
  "get_cover_from_ibs isbn_site (JStr [56448]) (JStr []) 0 = (Inl UnicodeEncodeError, [], 0)"
  using resolver_raises_on_surrogate [of isbn_site 0] by simp

section \<open>The catalog file is missing\<close>

text \<open>
  C7: when the catalog file does not exist, the pass reports it and ends without an
  exception: the only thing done is the message of line 114, so no record is processed,
  the resolver is not called, nothing is fetched and nothing is written; the file stays
  missing and the world is untouched.
\<close>

theorem missing_catalog:
  "enrich_books_with_ibs_covers caps Missing w =
     \<lparr>raised = None, trace = [Print File_not_found], books_now = [], updated_now = 0,
      disk_now = Missing, world_now = w\<rparr>"
  by (simp add: enrich_books_with_ibs_covers_def stopped_def)

theorem missing_catalog_witness:
  "enrich_books_with_ibs_covers isbn_site Missing 0 =
     \<lparr>raised = None, trace = [Print File_not_found], books_now = [], updated_now = 0,
      disk_now = Missing, world_now = 0\<rparr>"
  using missing_catalog [of isbn_site 0] by simp

section \<open>What the resolver does and what it returns\<close>

text \<open>
  The resolver only prints and fetches: it writes no file and calls no resolver. What
  it returns does not depend on the title and the author but through the pages.
\<close>

lemma first_book_link_events:
  "first_book_link caps title author page = (r, evs) \<Longrightarrow>
   writes evs = [] \<and> gets evs = [] \<and> calls evs = [] \<and> shape evs = [] \<and> isbn_messages evs = []"
  by (auto simp: first_book_link_def split: sum.splits list.splits option.splits)

lemma first_book_link_result:
  "fst (first_book_link caps title author page) = fst (first_book_link caps title' author' page)"
  by (simp add: first_book_link_def split: sum.splits list.splits option.splits)

lemma image_scan_events:
  "image_scan caps title soup = (r, evs) \<Longrightarrow>
   writes evs = [] \<and> gets evs = [] \<and> calls evs = [] \<and> shape evs = [] \<and> isbn_messages evs = []"
  by (auto simp: image_scan_def Let_def split: sum.splits option.splits)

lemma image_scan_result:
  "fst (image_scan caps title soup) = fst (image_scan caps title' soup)"
  by (simp add: image_scan_def Let_def split: sum.splits option.splits)

lemma cover_from_detail_events:
  "cover_from_detail caps title book_link soup = (r, evs) \<Longrightarrow>
   writes evs = [] \<and> gets evs = [] \<and> calls evs = [] \<and> shape evs = []"
  by (auto simp: cover_from_detail_def dest: image_scan_events split: sum.splits option.splits if_splits)

lemma cover_from_detail_result:
  "fst (cover_from_detail caps title book_link soup) = fst (cover_from_detail caps title' book_link soup)"
  using image_scan_result [of caps title soup title']
  by (simp add: cover_from_detail_def split: sum.splits option.splits)

lemma open_detail_page_events:
  "open_detail_page caps title author u w = (r, evs, w') \<Longrightarrow>
   writes evs = [] \<and> calls evs = [] \<and> shape evs = [] \<and> isbn_messages evs = []"
  by (auto simp: open_detail_page_def Let_def dest!: first_book_link_events
      split: prod.splits sum.splits option.splits)

lemma get_cover_from_ibs_events:
  "get_cover_from_ibs caps title author w = (r, evs, w') \<Longrightarrow>
   writes evs = [] \<and> calls evs = [] \<and> shape evs = []"
  by (auto simp: get_cover_from_ibs_def lookup_def
      dest!: open_detail_page_events cover_from_detail_events
      split: prod.splits sum.splits option.splits)


lemma lookup_at_detail:
  "open_detail_page caps title author u w = (Inr (Some (book_link, book_soup)), evs, w') \<Longrightarrow>
   lookup caps title author u w =
     (fst (cover_from_detail caps title book_link book_soup),
      evs @ snd (cover_from_detail caps title book_link book_soup), w')"
  by (simp add: lookup_def split: prod.splits)

lemma resolver_at_detail:
  "search_url_of caps title author = Inr u \<Longrightarrow>
   open_detail_page caps title author u w = (Inr (Some (book_link, book_soup)), evs, w') \<Longrightarrow>
   get_cover_from_ibs caps title author w =
     (case cover_from_detail caps title book_link book_soup of
        (Inl e, evs2) \<Rightarrow> (Inr [], evs @ evs2 @ [Print (Ibs_error title e)], w')
      | (Inr url, evs2) \<Rightarrow> (Inr url, evs @ evs2, w'))"
  by (simp add: get_cover_from_ibs_def lookup_at_detail split: prod.splits sum.splits)

lemma cover_from_detail_short:
  "extract_isbn caps book_link book_soup = Inr isbn \<Longrightarrow> \<not> acceptable isbn \<Longrightarrow>
   cover_from_detail caps title book_link book_soup = image_scan caps title book_soup"
  by (auto simp: cover_from_detail_def split: option.splits)

lemma cover_from_detail_long:
  "extract_isbn caps book_link book_soup = Inr (Some t) \<Longrightarrow> 10 \<le> length t \<Longrightarrow>
   cover_from_detail caps title book_link book_soup =
     (Inr (cover_template t), [Print (Cover_with_isbn (cover_template t))])"
  by (auto simp: cover_from_detail_def acceptable_def)

text \<open>
  C4: the identifier is accepted only from 10 characters on. In every run that reaches
  the detail page and extracts no identifier, or one of 9 characters or fewer, the
  resolver's result is the result of the image scan (an exception of the scan giving
  the empty string), and the message of line 89, printed with the identifier-based
  address, is not in the trace.
\<close>

theorem short_identifier_falls_back:
  assumes "search_url_of caps title author = Inr u"
    and "open_detail_page caps title author u w = (Inr (Some (book_link, book_soup)), evs, w')"
    and "extract_isbn caps book_link book_soup = Inr isbn"
    and "\<forall>t. isbn = Some t \<longrightarrow> length t \<le> 9"
  shows "get_cover_from_ibs caps title author w =
           (case image_scan caps title book_soup of
              (Inl e, evs2) \<Rightarrow> (Inr [], evs @ evs2 @ [Print (Ibs_error title e)], w')
            | (Inr url, evs2) \<Rightarrow> (Inr url, evs @ evs2, w'))
         \<and> isbn_messages (fst (snd (get_cover_from_ibs caps title author w))) = []"
proof -
  from assms(4) have na: "\<not> acceptable isbn"
    by (auto simp: acceptable_def split: option.splits)
  have eq: "get_cover_from_ibs caps title author w =
           (case image_scan caps title book_soup of
              (Inl e, evs2) \<Rightarrow> (Inr [], evs @ evs2 @ [Print (Ibs_error title e)], w')
            | (Inr url, evs2) \<Rightarrow> (Inr url, evs @ evs2, w'))"
    using resolver_at_detail [OF assms(1,2)] cover_from_detail_short [OF assms(3) na] by simp
  have "isbn_messages evs = []"
    using open_detail_page_events [OF assms(2)] by simp
  moreover obtain r evs2 where sc: "image_scan caps title book_soup = (r, evs2)"
    by (cases "image_scan caps title book_soup")
  moreover have "isbn_messages evs2 = []"
    using image_scan_events [OF sc] by simp
  ultimately have "isbn_messages (fst (snd (get_cover_from_ibs caps title author w))) = []"
    using eq by (cases r) simp_all
  with eq show ?thesis by simp
qed


text \<open>Unfolding the definitions on a concrete site.\<close>

lemmas site_defs = site_def short_site_def isbn_site_def double_site_def query_site_def
  silent_site_def
lemmas str_defs = ascii_def origin_def http_def e_sep_def sel_item_def sel_link_def sel_meta_def
  sel_img_def startswith_def cover_template_def
lemmas resolver_defs = search_url_of_def py_format_def quote_def utf8_char_def quote_byte_def
  always_safe_def hex_digit_def fetch_def raise_for_status_def first_book_link_def
  open_detail_page_def url_isbn_def meta_isbn_def extract_isbn_def image_scan_def acceptable_def
  cover_from_detail_def lookup_def get_cover_from_ibs_def py_split_def item1_def strip_def
  isspace_def Let_def

lemma short_site_url:
  "search_url_of short_site (JStr (ascii ''T'')) (JStr []) =
     Inr (ascii ''https://www.ibs.it/search/?ts=as&query=T%20'')"
  by (simp add: site_defs str_defs resolver_defs)

lemma short_site_detail:
  "open_detail_page short_site (JStr (ascii ''T'')) (JStr [])
     (ascii ''https://www.ibs.it/search/?ts=as&query=T%20'') 0 =
   (Inr (Some (ascii ''https://www.ibs.it/libro/e/123456789'', 0)),
    [Print (Searching_ibs (JStr (ascii ''T'')) (JStr [])),
     Get (ascii ''https://www.ibs.it/search/?ts=as&query=T%20''),
     Print (Opening_page (ascii ''https://www.ibs.it/libro/e/123456789'')),
     Get (ascii ''https://www.ibs.it/libro/e/123456789'')], 2)"
  by (simp add: site_defs str_defs resolver_defs)

lemma short_site_isbn:
  "extract_isbn short_site (ascii ''https://www.ibs.it/libro/e/123456789'') 0 =
     Inr (Some (ascii ''123456789''))"
  by (simp add: site_defs str_defs resolver_defs)

lemma short_site_scan:
  "image_scan short_site (JStr (ascii ''T'')) 0 =
      (Inr (ascii ''https://www.ibs.it/images/a.jpg''),
       [Print (Cover_in_page (ascii ''https://www.ibs.it/images/a.jpg''))])"
  by (simp add: site_defs str_defs resolver_defs)

theorem short_identifier_falls_back_witness:
  "search_url_of short_site (JStr (ascii ''T'')) (JStr []) =
     Inr (ascii ''https://www.ibs.it/search/?ts=as&query=T%20'')
   \<and> extract_isbn short_site (ascii ''https://www.ibs.it/libro/e/123456789'') 0 =
     Inr (Some (ascii ''123456789''))
   \<and> length (ascii ''123456789'') = 9
   \<and> fst (get_cover_from_ibs short_site (JStr (ascii ''T'')) (JStr []) 0) =
       Inr (ascii ''https://www.ibs.it/images/a.jpg'')
   \<and> isbn_messages (fst (snd (get_cover_from_ibs short_site (JStr (ascii ''T'')) (JStr []) 0))) = []"
proof -
  have len: "\<forall>t. Some (ascii ''123456789'') = Some t \<longrightarrow> length t \<le> 9"
    by (simp add: ascii_def)
  show ?thesis
    using short_identifier_falls_back [OF short_site_url short_site_detail short_site_isbn len]
      short_site_url short_site_isbn
    by (simp add: short_site_scan) (simp add: ascii_def)
qed

lemma open_detail_page_result:
  assumes "fst (fetch caps u1 w1) = fst (fetch caps u2 w2)"
    and "\<forall>link. fst (fetch caps link (snd (fetch caps u1 w1))) =
                 fst (fetch caps link (snd (fetch caps u2 w2)))"
  shows "fst (open_detail_page caps t1 a1 u1 w1) = fst (open_detail_page caps t2 a2 u2 w2)"
proof -
  obtain r x1 x2 where f1: "fetch caps u1 w1 = (r, x1)" and f2: "fetch caps u2 w2 = (r, x2)"
    using assms(1) by (cases "fetch caps u1 w1"; cases "fetch caps u2 w2") auto
  have next_eq: "\<And>link. fst (fetch caps link x1) = fst (fetch caps link x2)"
    using assms(2) f1 f2 by simp
  show ?thesis
  proof (cases r)
    case (Inl e)
    with f1 f2 show ?thesis by (simp add: open_detail_page_def)
  next
    case (Inr page)
    obtain k evs1 evs2 where b1: "first_book_link caps t1 a1 page = (k, evs1)"
      and b2: "first_book_link caps t2 a2 page = (k, evs2)"
      using first_book_link_result [of caps t1 a1 page t2 a2]
      by (cases "first_book_link caps t1 a1 page"; cases "first_book_link caps t2 a2 page") auto
    show ?thesis
    proof (cases k)
      case (Inl e)
      with Inr f1 f2 b1 b2 show ?thesis by (simp add: open_detail_page_def)
    next
      case right: (Inr el_opt)
      show ?thesis
      proof (cases el_opt)
        case None
        with right Inr f1 f2 b1 b2 show ?thesis by (simp add: open_detail_page_def)
      next
        case (Some el)
        show ?thesis
        proof (cases "get_attr caps el (ascii ''href'')")
          case None
          with Some right Inr f1 f2 b1 b2 show ?thesis by (simp add: open_detail_page_def)
        next
          case href: (Some h)
          define link where "link = (if \<not> startswith h http then origin @ h else h)"
          obtain q y1 y2 where g1: "fetch caps link x1 = (q, y1)" and g2: "fetch caps link x2 = (q, y2)"
            using next_eq [of link]
            by (cases "fetch caps link x1"; cases "fetch caps link x2") auto
          from href Some right Inr f1 f2 b1 b2 g1 g2 show ?thesis
            by (simp add: open_detail_page_def Let_def link_def [symmetric] split: sum.splits)
        qed
      qed
    qed
  qed
qed

lemma lookup_result:
  assumes "fst (open_detail_page caps t1 a1 u1 w1) = fst (open_detail_page caps t2 a2 u2 w2)"
  shows "fst (lookup caps t1 a1 u1 w1) = fst (lookup caps t2 a2 u2 w2)"
proof -
  obtain k e1 x1 e2 x2 where o1: "open_detail_page caps t1 a1 u1 w1 = (k, e1, x1)"
    and o2: "open_detail_page caps t2 a2 u2 w2 = (k, e2, x2)"
    using assms
    by (cases "open_detail_page caps t1 a1 u1 w1"; cases "open_detail_page caps t2 a2 u2 w2") auto
  show ?thesis
    using o1 o2 cover_from_detail_result [of caps t1 _ _ t2]
    by (auto simp: lookup_def split: sum.splits option.splits prod.splits) (metis fst_conv)
qed

lemma resolver_result:
  assumes "search_url_of caps t1 a1 = Inr u1" and "search_url_of caps t2 a2 = Inr u2"
    and "fst (lookup caps t1 a1 u1 w1) = fst (lookup caps t2 a2 u2 w2)"
  shows "fst (get_cover_from_ibs caps t1 a1 w1) = fst (get_cover_from_ibs caps t2 a2 w2)"
  using assms by (auto simp: get_cover_from_ibs_def split: prod.splits sum.splits)


text \<open>
  C5: resolution is a function of the fetched pages: two runs, with any titles, authors
  and worlds, that get the same answer to the search GET and the same answers to the
  GET that follows, return the same value. And whenever an identifier of at least 10
  characters is extracted, the resolver returns the templated address
  \<open>https://www.ibs.it/images/{isbn}_0_0_536_0_75.jpg\<close> with the message of line 89,
  whatever the image scan would find: the scan is not run.
\<close>

theorem resolution_deterministic_isbn_preferred:
  "(search_url_of caps t1 a1 = Inr u1 \<and> search_url_of caps t2 a2 = Inr u2
      \<and> fst (fetch caps u1 w1) = fst (fetch caps u2 w2)
      \<and> (\<forall>link. fst (fetch caps link (snd (fetch caps u1 w1))) =
                  fst (fetch caps link (snd (fetch caps u2 w2))))
    \<longrightarrow> fst (get_cover_from_ibs caps t1 a1 w1) = fst (get_cover_from_ibs caps t2 a2 w2))
   \<and> (search_url_of caps title author = Inr u
      \<and> open_detail_page caps title author u w = (Inr (Some (book_link, book_soup)), evs, w')
      \<and> extract_isbn caps book_link book_soup = Inr (Some isbn) \<and> 10 \<le> length isbn
    \<longrightarrow> get_cover_from_ibs caps title author w =
          (Inr (cover_template isbn), evs @ [Print (Cover_with_isbn (cover_template isbn))], w'))"
proof (intro conjI impI)
  assume h: "search_url_of caps t1 a1 = Inr u1 \<and> search_url_of caps t2 a2 = Inr u2
      \<and> fst (fetch caps u1 w1) = fst (fetch caps u2 w2)
      \<and> (\<forall>link. fst (fetch caps link (snd (fetch caps u1 w1))) =
                  fst (fetch caps link (snd (fetch caps u2 w2))))"
  then have "fst (open_detail_page caps t1 a1 u1 w1) = fst (open_detail_page caps t2 a2 u2 w2)"
    by (intro open_detail_page_result) simp_all
  then have "fst (lookup caps t1 a1 u1 w1) = fst (lookup caps t2 a2 u2 w2)"
    by (rule lookup_result)
  with h show "fst (get_cover_from_ibs caps t1 a1 w1) = fst (get_cover_from_ibs caps t2 a2 w2)"
    by (intro resolver_result) simp_all
next
  assume h: "search_url_of caps title author = Inr u
      \<and> open_detail_page caps title author u w = (Inr (Some (book_link, book_soup)), evs, w')
      \<and> extract_isbn caps book_link book_soup = Inr (Some isbn) \<and> 10 \<le> length isbn"
  then have "cover_from_detail caps title book_link book_soup =
     (Inr (cover_template isbn), [Print (Cover_with_isbn (cover_template isbn))])"
    by (intro cover_from_detail_long) simp_all
  with h show "get_cover_from_ibs caps title author w =
          (Inr (cover_template isbn), evs @ [Print (Cover_with_isbn (cover_template isbn))], w')"
    using resolver_at_detail [of caps title author u w book_link book_soup evs w'] by simp
qed


lemma isbn_site_url_T:
  "search_url_of isbn_site (JStr (ascii ''T'')) (JStr []) =
     Inr (ascii ''https://www.ibs.it/search/?ts=as&query=T%20'')"
  by (simp add: site_defs str_defs resolver_defs)

lemma isbn_site_url_U:
  "search_url_of isbn_site (JStr (ascii ''U'')) (JStr []) =
     Inr (ascii ''https://www.ibs.it/search/?ts=as&query=U%20'')"
  by (simp add: site_defs str_defs resolver_defs)

lemma isbn_site_fetch: "fetch isbn_site url w = (Inr [], Suc w)"
  by (simp add: site_defs fetch_def raise_for_status_def)

lemma isbn_site_detail:
  "open_detail_page isbn_site (JStr (ascii ''T'')) (JStr [])
     (ascii ''https://www.ibs.it/search/?ts=as&query=T%20'') 0 =
   (Inr (Some (ascii ''https://www.ibs.it/libro/e/9788807034664'', 0)),
    [Print (Searching_ibs (JStr (ascii ''T'')) (JStr [])),
     Get (ascii ''https://www.ibs.it/search/?ts=as&query=T%20''),
     Print (Opening_page (ascii ''https://www.ibs.it/libro/e/9788807034664'')),
     Get (ascii ''https://www.ibs.it/libro/e/9788807034664'')], 2)"
  by (simp add: site_defs str_defs resolver_defs)

lemma isbn_site_isbn:
  "extract_isbn isbn_site (ascii ''https://www.ibs.it/libro/e/9788807034664'') 0 =
     Inr (Some (ascii ''9788807034664''))"
  by (simp add: site_defs str_defs resolver_defs)

lemma isbn_site_scan:
  "image_scan isbn_site (JStr (ascii ''T'')) 0 =
      (Inr (ascii ''https://www.ibs.it/images/a.jpg''),
       [Print (Cover_in_page (ascii ''https://www.ibs.it/images/a.jpg''))])"
  by (simp add: site_defs str_defs resolver_defs)

theorem resolution_deterministic_isbn_preferred_witness:
  "search_url_of isbn_site (JStr (ascii ''T'')) (JStr []) =
     Inr (ascii ''https://www.ibs.it/search/?ts=as&query=T%20'')
   \<and> search_url_of isbn_site (JStr (ascii ''U'')) (JStr []) =
     Inr (ascii ''https://www.ibs.it/search/?ts=as&query=U%20'')
   \<and> fst (fetch isbn_site (ascii ''https://www.ibs.it/search/?ts=as&query=T%20'') 0) =
       fst (fetch isbn_site (ascii ''https://www.ibs.it/search/?ts=as&query=U%20'') 7)
   \<and> fst (get_cover_from_ibs isbn_site (JStr (ascii ''T'')) (JStr []) 0) =
       fst (get_cover_from_ibs isbn_site (JStr (ascii ''U'')) (JStr []) 7)
   \<and> extract_isbn isbn_site (ascii ''https://www.ibs.it/libro/e/9788807034664'') 0 =
       Inr (Some (ascii ''9788807034664''))
   \<and> length (ascii ''9788807034664'') = 13
   \<and> fst (image_scan isbn_site (JStr (ascii ''T'')) 0) = Inr (ascii ''https://www.ibs.it/images/a.jpg'')
   \<and> fst (get_cover_from_ibs isbn_site (JStr (ascii ''T'')) (JStr []) 0) =
       Inr (ascii ''https://www.ibs.it/images/9788807034664_0_0_536_0_75.jpg'')"
proof -
  have len: "10 \<le> length (ascii ''9788807034664'')" and len13: "length (ascii ''9788807034664'') = 13"
    by (simp_all add: ascii_def)
  have tmpl: "cover_template (ascii ''9788807034664'') =
      ascii ''https://www.ibs.it/images/9788807034664_0_0_536_0_75.jpg''"
    by (simp add: cover_template_def ascii_def)
  note main = resolution_deterministic_isbn_preferred [where caps = isbn_site
        and ?t1.0 = "JStr (ascii ''T'')" and ?a1.0 = "JStr []"
        and ?u1.0 = "ascii ''https://www.ibs.it/search/?ts=as&query=T%20''"
        and ?t2.0 = "JStr (ascii ''U'')" and ?a2.0 = "JStr []"
        and ?u2.0 = "ascii ''https://www.ibs.it/search/?ts=as&query=U%20''"
        and ?w1.0 = 0 and ?w2.0 = 7
        and title = "JStr (ascii ''T'')" and author = "JStr []"
        and u = "ascii ''https://www.ibs.it/search/?ts=as&query=T%20''" and w = 0
        and book_link = "ascii ''https://www.ibs.it/libro/e/9788807034664''" and book_soup = 0
        and isbn = "ascii ''9788807034664''" and w' = 2
        and evs = "[Print (Searching_ibs (JStr (ascii ''T'')) (JStr [])),
           Get (ascii ''https://www.ibs.it/search/?ts=as&query=T%20''),
           Print (Opening_page (ascii ''https://www.ibs.it/libro/e/9788807034664'')),
           Get (ascii ''https://www.ibs.it/libro/e/9788807034664'')]"]
  have same: "fst (get_cover_from_ibs isbn_site (JStr (ascii ''T'')) (JStr []) 0) =
       fst (get_cover_from_ibs isbn_site (JStr (ascii ''U'')) (JStr []) 7)"
    using main isbn_site_url_T isbn_site_url_U by (simp add: isbn_site_fetch)
  have found: "fst (get_cover_from_ibs isbn_site (JStr (ascii ''T'')) (JStr []) 0) =
       Inr (ascii ''https://www.ibs.it/images/9788807034664_0_0_536_0_75.jpg'')"
    using main isbn_site_url_T isbn_site_detail isbn_site_isbn len by (simp add: tmpl)
  show ?thesis
    using same found isbn_site_url_T isbn_site_url_U isbn_site_isbn len13
    by (simp add: isbn_site_fetch isbn_site_scan)
qed

section \<open>Addresses fetched and returned\<close>


lemma startswith_absolute:
  "startswith (if \<not> startswith s http then origin @ s else s) (ascii ''http'')"
  by (simp add: startswith_def http_def origin_def ascii_def)














section \<open>The identifier taken from the address\<close>

text \<open>
  \<open>split\<close> cuts at every occurrence of the separator, so the second piece ends at the
  second occurrence, when there is one.
\<close>

lemma before_first_none: "\<not> contains sep s \<Longrightarrow> before_first sep s = s"
  by (induction s) auto

lemma drop_sep: "sep \<noteq> [] \<Longrightarrow> drop (length sep) (c # cs) = drop (length sep - 1) cs"
  by (cases sep) simp_all

lemma split_from_first:
  "sep \<noteq> [] \<Longrightarrow>
   split_from sep cur s =
     (if contains sep s then (cur @ before_first sep s) # split_from sep [] (after_first sep s)
      else [cur @ s])"
proof (induction s arbitrary: cur)
  case Nil
  then show ?case by simp
next
  case (Cons c cs)
  show ?case
  proof (cases "startswith (c # cs) sep")
    case True
    with Cons.prems show ?thesis by (simp add: drop_sep)
  next
    case False
    with Cons.IH [OF Cons.prems, of "cur @ [c]"] show ?thesis by simp
  qed
qed

lemma split_from_head: "sep \<noteq> [] \<Longrightarrow> \<exists>rest. split_from sep [] s = before_first sep s # rest"
  by (subst split_from_first) (auto simp: before_first_none)

lemma item1_split:
  assumes "sep \<noteq> []" and "contains sep s"
  shows "item1 (py_split s sep) = Inr (before_first sep (after_first sep s))"
proof -
  obtain rest where "split_from sep [] (after_first sep s) = before_first sep (after_first sep s) # rest"
    using split_from_head [OF assms(1)] by blast
  then show ?thesis
    using assms by (simp add: py_split_def item1_def split_from_first [of sep "[]" s])
qed

lemma e_sep_nonempty: "e_sep \<noteq> []"
  by (simp add: e_sep_def ascii_def)

lemma url_isbn_segment:
  "contains e_sep book_link \<Longrightarrow>
   url_isbn book_link = Inr (Some (strip (before_first e_sep (after_first e_sep book_link))))"
  by (simp add: url_isbn_def item1_split [OF e_sep_nonempty])

lemma extract_isbn_from_url:
  assumes "contains e_sep book_link"
    and "strip (before_first e_sep (after_first e_sep book_link)) \<noteq> []"
  shows "extract_isbn caps book_link book_soup =
           Inr (Some (strip (before_first e_sep (after_first e_sep book_link))))"
  using assms by (simp add: extract_isbn_def url_isbn_segment meta_isbn_def)

text \<open>
  C10, as amended: the identifier taken from the detail-page address is the text after
  the first \<open>/e/\<close> up to the next \<open>/e/\<close>, if there is one, stripped of whitespace, and
  its shape is not checked: whenever that text has 10 characters or more, the resolver
  returns the templated address with it, as it is, and prints the message of line 89.
  When the text after the first \<open>/e/\<close> holds no further \<open>/e/\<close>, it is taken whole,
  with its slashes and query parameters.
\<close>

theorem identifier_is_segment_after_e:
  "(search_url_of caps title author = Inr u
      \<and> open_detail_page caps title author u w = (Inr (Some (book_link, book_soup)), evs, w')
      \<and> contains (ascii ''/e/'') book_link
      \<and> 10 \<le> length (strip (before_first (ascii ''/e/'') (after_first (ascii ''/e/'') book_link)))
    \<longrightarrow> get_cover_from_ibs caps title author w =
          (Inr (ascii ''https://www.ibs.it/images/''
                 @ strip (before_first (ascii ''/e/'') (after_first (ascii ''/e/'') book_link))
                 @ ascii ''_0_0_536_0_75.jpg''),
           evs @ [Print (Cover_with_isbn (ascii ''https://www.ibs.it/images/''
                 @ strip (before_first (ascii ''/e/'') (after_first (ascii ''/e/'') book_link))
                 @ ascii ''_0_0_536_0_75.jpg''))], w'))
   \<and> (\<not> contains (ascii ''/e/'') (after_first (ascii ''/e/'') book_link)
    \<longrightarrow> before_first (ascii ''/e/'') (after_first (ascii ''/e/'') book_link) =
          after_first (ascii ''/e/'') book_link)"
proof (intro conjI impI)
  let ?tok = "strip (before_first e_sep (after_first e_sep book_link))"
  assume h: "search_url_of caps title author = Inr u
      \<and> open_detail_page caps title author u w = (Inr (Some (book_link, book_soup)), evs, w')
      \<and> contains (ascii ''/e/'') book_link
      \<and> 10 \<le> length (strip (before_first (ascii ''/e/'') (after_first (ascii ''/e/'') book_link)))"
  then have c: "contains e_sep book_link" and l: "10 \<le> length ?tok"
    by (simp_all add: e_sep_def)
  from l have "?tok \<noteq> []" by auto
  then have "extract_isbn caps book_link book_soup = Inr (Some ?tok)"
    using c by (simp add: extract_isbn_from_url)
  then have "cover_from_detail caps title book_link book_soup =
     (Inr (cover_template ?tok), [Print (Cover_with_isbn (cover_template ?tok))])"
    using l by (rule cover_from_detail_long)
  with h show "get_cover_from_ibs caps title author w =
          (Inr (ascii ''https://www.ibs.it/images/''
                 @ strip (before_first (ascii ''/e/'') (after_first (ascii ''/e/'') book_link))
                 @ ascii ''_0_0_536_0_75.jpg''),
           evs @ [Print (Cover_with_isbn (ascii ''https://www.ibs.it/images/''
                 @ strip (before_first (ascii ''/e/'') (after_first (ascii ''/e/'') book_link))
                 @ ascii ''_0_0_536_0_75.jpg''))], w')"
    using resolver_at_detail [of caps title author u w book_link book_soup evs w']
    by (simp add: cover_template_def e_sep_def)
next
  assume "\<not> contains (ascii ''/e/'') (after_first (ascii ''/e/'') book_link)"
  then show "before_first (ascii ''/e/'') (after_first (ascii ''/e/'') book_link) =
          after_first (ascii ''/e/'') book_link"
    by (rule before_first_none)
qed

lemma query_site_url:
  "search_url_of query_site (JStr (ascii ''T'')) (JStr []) =
     Inr (ascii ''https://www.ibs.it/search/?ts=as&query=T%20'')"
  by (simp add: site_defs str_defs resolver_defs)

lemma query_site_detail:
  "open_detail_page query_site (JStr (ascii ''T'')) (JStr [])
     (ascii ''https://www.ibs.it/search/?ts=as&query=T%20'') 0 =
   (Inr (Some (ascii ''https://www.ibs.it/libro/e/9788807034664/x?y=1'', 0)),
    [Print (Searching_ibs (JStr (ascii ''T'')) (JStr [])),
     Get (ascii ''https://www.ibs.it/search/?ts=as&query=T%20''),
     Print (Opening_page (ascii ''https://www.ibs.it/libro/e/9788807034664/x?y=1'')),
     Get (ascii ''https://www.ibs.it/libro/e/9788807034664/x?y=1'')], 2)"
  by (simp add: site_defs str_defs resolver_defs)

lemma query_site_remainder:
  "after_first (ascii ''/e/'') (ascii ''https://www.ibs.it/libro/e/9788807034664/x?y=1'') =
     ascii ''9788807034664/x?y=1''"
  by (simp add: ascii_def startswith_def)

lemma query_site_token:
  "strip (before_first (ascii ''/e/'') (ascii ''9788807034664/x?y=1'')) = ascii ''9788807034664/x?y=1''"
  by (simp add: ascii_def startswith_def strip_def isspace_def)

theorem identifier_is_segment_after_e_witness:
  "search_url_of query_site (JStr (ascii ''T'')) (JStr []) =
     Inr (ascii ''https://www.ibs.it/search/?ts=as&query=T%20'')
   \<and> contains (ascii ''/e/'') (ascii ''https://www.ibs.it/libro/e/9788807034664/x?y=1'')
   \<and> after_first (ascii ''/e/'') (ascii ''https://www.ibs.it/libro/e/9788807034664/x?y=1'') =
       ascii ''9788807034664/x?y=1''
   \<and> \<not> contains (ascii ''/e/'') (ascii ''9788807034664/x?y=1'')
   \<and> length (ascii ''9788807034664/x?y=1'') = 19
   \<and> fst (get_cover_from_ibs query_site (JStr (ascii ''T'')) (JStr []) 0) =
       Inr (ascii ''https://www.ibs.it/images/9788807034664/x?y=1_0_0_536_0_75.jpg'')"
proof -
  note main = identifier_is_segment_after_e [where caps = query_site
      and title = "JStr (ascii ''T'')" and author = "JStr []"
      and u = "ascii ''https://www.ibs.it/search/?ts=as&query=T%20''" and w = 0
      and book_link = "ascii ''https://www.ibs.it/libro/e/9788807034664/x?y=1''" and book_soup = 0
      and evs = "[Print (Searching_ibs (JStr (ascii ''T'')) (JStr [])),
           Get (ascii ''https://www.ibs.it/search/?ts=as&query=T%20''),
           Print (Opening_page (ascii ''https://www.ibs.it/libro/e/9788807034664/x?y=1'')),
           Get (ascii ''https://www.ibs.it/libro/e/9788807034664/x?y=1'')]"
      and w' = 2]
  have c: "contains (ascii ''/e/'') (ascii ''https://www.ibs.it/libro/e/9788807034664/x?y=1'')"
    and n: "\<not> contains (ascii ''/e/'') (ascii ''9788807034664/x?y=1'')"
    and l: "length (ascii ''9788807034664/x?y=1'') = 19"
    by (simp_all add: ascii_def startswith_def)
  have cat: "ascii ''https://www.ibs.it/images/'' @ ascii ''9788807034664/x?y=1'' @ ascii ''_0_0_536_0_75.jpg''
      = ascii ''https://www.ibs.it/images/9788807034664/x?y=1_0_0_536_0_75.jpg''"
    by (simp add: ascii_def)
  have r: "fst (get_cover_from_ibs query_site (JStr (ascii ''T'')) (JStr []) 0) =
       Inr (ascii ''https://www.ibs.it/images/9788807034664/x?y=1_0_0_536_0_75.jpg'')"
    using main query_site_url query_site_detail c l
    by (simp add: query_site_remainder query_site_token cat)
  show ?thesis
    using query_site_url c n l r by (simp add: query_site_remainder)
qed

text \<open>
  C10 as stated fails: for the detail page \<open>https://www.ibs.it/libro/e/9788807034664/e/altro\<close>
  the text after the first \<open>/e/\<close> is \<open>9788807034664/e/altro\<close>, of 21 characters, but the
  resolver returns the address built from \<open>9788807034664\<close> alone.
\<close>

theorem remainder_counterexample:
  "gets (fst (snd (get_cover_from_ibs double_site (JStr (ascii ''T'')) (JStr []) 0))) =
     [ascii ''https://www.ibs.it/search/?ts=as&query=T%20'',
      ascii ''https://www.ibs.it/libro/e/9788807034664/e/altro'']
   \<and> strip (after_first (ascii ''/e/'') (ascii ''https://www.ibs.it/libro/e/9788807034664/e/altro'')) =
       ascii ''9788807034664/e/altro''
   \<and> length (ascii ''9788807034664/e/altro'') = 21
   \<and> fst (get_cover_from_ibs double_site (JStr (ascii ''T'')) (JStr []) 0) =
       Inr (ascii ''https://www.ibs.it/images/9788807034664_0_0_536_0_75.jpg'')
   \<and> ascii ''https://www.ibs.it/images/9788807034664_0_0_536_0_75.jpg'' \<noteq>
       ascii ''https://www.ibs.it/images/9788807034664/e/altro_0_0_536_0_75.jpg''"
  by (simp add: site_defs str_defs resolver_defs)

section \<open>The loop over the catalog\<close>

text \<open>One pass of the loop body: what each outcome says about the record and the trace.\<close>

lemma after_simps [simp]:
  "raised (after evs r) = raised r"
  "trace (after evs r) = evs @ trace r"
  "books_now (after evs r) = books_now r"
  "updated_now (after evs r) = updated_now r"
  "disk_now (after evs r) = disk_now r"
  "world_now (after evs r) = world_now r"
  by (simp_all add: after_def)

lemma finish_simps [simp]:
  "raised (finish n r) = raised r"
  "books_now (finish n r) = books_now r"
  "updated_now (finish n r) = updated_now r"
  "disk_now (finish n r) = disk_now r"
  "world_now (finish n r) = world_now r"
  "writes (trace (finish n r)) = writes (trace r)"
  "calls (trace (finish n r)) = calls (trace r)"
  "shape (trace (finish n r)) = shape (trace r)"
  by (simp_all add: finish_def)

lemma process_book_skipped:
  "process_book caps n processed book w = Skipped evs \<Longrightarrow>
   \<not> eligible book \<and> writes evs = [] \<and> calls evs = [] \<and> shape evs = []"
  by (auto simp: process_book_def eligible_def Let_def
      split: json.splits sum.splits bool.splits if_splits prod.splits)

lemma process_book_aborted:
  "process_book caps n processed book w = Aborted e evs w' \<Longrightarrow>
   writes evs = [] \<and> (calls evs = [] \<or> eligible book \<and> calls evs = [processed])"
  by (auto simp: process_book_def eligible_def Let_def dest: get_cover_from_ibs_events
      split: json.splits sum.splits bool.splits if_splits prod.splits)

lemma process_book_looked_up:
  "process_book caps n processed book w = Looked_up book' found evs w' \<Longrightarrow>
   eligible book \<and> writes evs = [] \<and> calls evs = [processed] \<and> shape evs = [Some processed]
   \<and> (\<not> found \<longrightarrow> book' = book)"
  by (auto simp: process_book_def eligible_def Let_def dest: get_cover_from_ibs_events
      split: json.splits sum.splits bool.splits if_splits prod.splits)

text \<open>The two ends of a pass that reached the save.\<close>

lemma looked_up_saved:
  "process_book caps n (processed + 1) book w = Looked_up book' found evs w' \<Longrightarrow>
   dumpable (JArr (seen @ book' # rest)) \<Longrightarrow>
   process_books caps n seen (book # rest) processed updated d w =
     after (evs @ [Write (JArr (seen @ book' # rest)), Sleep 2])
       (process_books caps n (seen @ [book']) rest (processed + 1)
          (if found then updated + 1 else updated) (Json (JArr (seen @ book' # rest))) w')"
  by (simp del: dumpable.simps)

lemma looked_up_failed:
  "process_book caps n (processed + 1) book w = Looked_up book' found evs w' \<Longrightarrow>
   \<not> dumpable (JArr (seen @ book' # rest)) \<Longrightarrow>
   process_books caps n seen (book # rest) processed updated d w =
     \<lparr>raised = Some UnicodeEncodeError, trace = evs @ [Failed_write (JArr (seen @ book' # rest))],
      books_now = seen @ book' # rest, updated_now = (if found then updated + 1 else updated),
      disk_now = Garbage, world_now = w'\<rparr>"
  by (simp del: dumpable.simps)

text \<open>
  The loop: the resolver is called for record numbers of the records still to come only,
  never for a record that is not eligible, and whatever is written or kept in memory has
  every record in its place, changed only if it was eligible. The file holds what it
  held, or the last value written, or, after a save that raised, no document.
\<close>

lemma calls_in_range:
  "m \<in> set (calls (trace (process_books caps n seen todo processed updated d w))) \<Longrightarrow>
   processed < m \<and> m \<le> processed + length todo"
proof (induction todo arbitrary: seen processed updated d w)
  case Nil
  then show ?case by simp
next
  case (Cons book rest)
  show ?case
  proof (cases "process_book caps n (processed + 1) book w")
    case (Skipped evs)
    with Cons.prems process_book_skipped [OF Skipped]
    have "m \<in> set (calls (trace (process_books caps n (seen @ [book]) rest (processed + 1) updated d w)))"
      by simp
    from Cons.IH [OF this] show ?thesis by simp
  next
    case (Aborted e evs w')
    with Cons.prems process_book_aborted [OF Aborted] show ?thesis by auto
  next
    case (Looked_up book' found evs w')
    note pb = process_book_looked_up [OF Looked_up]
    show ?thesis
    proof (cases "dumpable (JArr (seen @ book' # rest))")
      case True
      with Cons.prems pb looked_up_saved [OF Looked_up True, of updated d]
      have "m = processed + 1 \<or>
        m \<in> set (calls (trace (process_books caps n (seen @ [book']) rest (processed + 1)
          (if found then updated + 1 else updated) (Json (JArr (seen @ book' # rest))) w')))"
        by auto
      then show ?thesis
      proof
        assume "m = processed + 1" then show ?thesis by simp
      next
        assume "m \<in> set (calls (trace (process_books caps n (seen @ [book']) rest (processed + 1)
          (if found then updated + 1 else updated) (Json (JArr (seen @ book' # rest))) w')))"
        from Cons.IH [OF this] show ?thesis by simp
      qed
    next
      case False
      with Cons.prems pb looked_up_failed [OF Looked_up False, of updated d]
      show ?thesis by auto
    qed
  qed
qed

lemma no_call_unless_eligible:
  "i < length todo \<Longrightarrow> \<not> eligible (todo ! i) \<Longrightarrow>
   Suc (processed + i) \<notin> set (calls (trace (process_books caps n seen todo processed updated d w)))"
proof (induction todo arbitrary: i seen processed updated d w)
  case Nil
  then show ?case by simp
next
  case (Cons book rest)
  show ?case
  proof (cases i)
    case 0
    with Cons.prems have ne: "\<not> eligible book" by simp
    show ?thesis
    proof (cases "process_book caps n (processed + 1) book w")
      case (Skipped evs)
      with 0 process_book_skipped [OF Skipped]
        calls_in_range [of "Suc processed" caps n "seen @ [book]" rest "processed + 1" updated d w]
      show ?thesis by auto
    next
      case (Aborted e evs w')
      with ne process_book_aborted [OF Aborted] show ?thesis by auto
    next
      case (Looked_up book' found evs w')
      with ne process_book_looked_up [OF Looked_up] show ?thesis by simp
    qed
  next
    case (Suc j)
    with Cons.prems have j: "j < length rest" and nej: "\<not> eligible (rest ! j)" by simp_all
    note ih = Cons.IH [OF j nej, of "processed + 1"]
    show ?thesis
    proof (cases "process_book caps n (processed + 1) book w")
      case (Skipped evs)
      with Suc process_book_skipped [OF Skipped] ih [of "seen @ [book]" updated d w]
      show ?thesis by simp
    next
      case (Aborted e evs w')
      with Suc process_book_aborted [OF Aborted] show ?thesis by auto
    next
      case (Looked_up book' found evs w')
      note pb = process_book_looked_up [OF Looked_up]
      show ?thesis
      proof (cases "dumpable (JArr (seen @ book' # rest))")
        case True
        with Suc pb looked_up_saved [OF Looked_up True, of updated d]
          ih [of "seen @ [book']" "if found then updated + 1 else updated"
                "Json (JArr (seen @ book' # rest))" w']
        show ?thesis by simp
      next
        case False
        with Suc pb looked_up_failed [OF Looked_up False, of updated d]
        show ?thesis by simp
      qed
    qed
  qed
qed

lemma records_kept:
  fixes caps :: "('w, 'n) capabilities"
  defines "kept \<equiv> list_all2 (\<lambda>a b. eligible a \<or> b = a)"
  shows "(\<forall>v \<in> set (writes (trace (process_books caps n seen todo processed updated d w))).
            \<exists>rest'. v = JArr (seen @ rest') \<and> kept todo rest')
         \<and> (\<exists>rest'. books_now (process_books caps n seen todo processed updated d w) = seen @ rest'
               \<and> kept todo rest')
         \<and> (disk_now (process_books caps n seen todo processed updated d w) = d
            \<or> (disk_now (process_books caps n seen todo processed updated d w) = Garbage
               \<and> raised (process_books caps n seen todo processed updated d w) =
                   Some UnicodeEncodeError)
            \<or> (\<exists>v \<in> set (writes (trace (process_books caps n seen todo processed updated d w))).
                 disk_now (process_books caps n seen todo processed updated d w) = Json v))"
proof (induction todo arbitrary: seen processed updated d w)
  case Nil
  then show ?case by (simp add: kept_def)
next
  case (Cons book rest)
  have same: "\<And>xs. kept xs xs" by (simp add: kept_def list_all2_refl)
  show ?case
  proof (cases "process_book caps n (processed + 1) book w")
    case (Skipped evs)
    note ih = Cons.IH [of "seen @ [book]" "processed + 1" updated d w]
    have step: "\<And>rest'. kept rest rest' \<Longrightarrow> kept (book # rest) (book # rest')"
      by (simp add: kept_def)
    from Skipped process_book_skipped [OF Skipped] ih step show ?thesis
      by (simp add: Ball_def Bex_def) (metis append.assoc append_Cons append_Nil)
  next
    case (Aborted e evs w')
    with process_book_aborted [OF Aborted] same show ?thesis by auto
  next
    case (Looked_up book' found evs w')
    from process_book_looked_up [OF Looked_up] have el: "eligible book" and wr: "writes evs = []"
      by simp_all
    have step: "\<And>rest'. kept rest rest' \<Longrightarrow> kept (book # rest) (book' # rest')"
      using el by (simp add: kept_def)
    have first: "kept (book # rest) (book' # rest)"
      using step same by blast
    show ?thesis
    proof (cases "dumpable (JArr (seen @ book' # rest))")
      case False
      from looked_up_failed [OF Looked_up False, of updated d] wr first show ?thesis
        by auto
    next
      case True
      define upd where "upd = (if found then updated + 1 else updated)"
      define r' where "r' = process_books caps n (seen @ [book']) rest (processed + 1) upd
          (Json (JArr (seen @ book' # rest))) w'"
      have r: "process_books caps n seen (book # rest) processed updated d w =
          after (evs @ [Write (JArr (seen @ book' # rest)), Sleep 2]) r'"
        using looked_up_saved [OF Looked_up True, of updated d] by (simp add: r'_def upd_def)
      note ih = Cons.IH [of "seen @ [book']" "processed + 1" upd
          "Json (JArr (seen @ book' # rest))" w', folded r'_def]
      have w: "writes (trace (after (evs @ [Write (JArr (seen @ book' # rest)), Sleep 2]) r')) =
          JArr (seen @ book' # rest) # writes (trace r')"
        using wr by simp
      have a: "\<forall>v \<in> set (JArr (seen @ book' # rest) # writes (trace r')).
          \<exists>rest'. v = JArr (seen @ rest') \<and> kept (book # rest) rest'"
      proof
        fix v assume "v \<in> set (JArr (seen @ book' # rest) # writes (trace r'))"
        then consider "v = JArr (seen @ book' # rest)" | "v \<in> set (writes (trace r'))" by auto
        then show "\<exists>rest'. v = JArr (seen @ rest') \<and> kept (book # rest) rest'"
        proof cases
          case 1
          with first show ?thesis by blast
        next
          case 2
          with ih obtain rest' where "v = JArr ((seen @ [book']) @ rest')" "kept rest rest'" by blast
          with step show ?thesis by (intro exI [of _ "book' # rest'"]) simp
        qed
      qed
      have b: "\<exists>rest'. books_now r' = seen @ rest' \<and> kept (book # rest) rest'"
      proof -
        from ih obtain rest' where "books_now r' = (seen @ [book']) @ rest'" "kept rest rest'" by blast
        with step show ?thesis by (intro exI [of _ "book' # rest'"]) simp
      qed
      have c: "disk_now r' = d
          \<or> (disk_now r' = Garbage \<and> raised r' = Some UnicodeEncodeError)
          \<or> (\<exists>v \<in> set (JArr (seen @ book' # rest) # writes (trace r')). disk_now r' = Json v)"
        using ih by auto
      show ?thesis
        unfolding r w using a b c by simp
    qed
  qed
qed

lemma covered_not_eligible:
  "dict_get kvs (ascii ''cover_url'') JNull = JStr s \<Longrightarrow> strip s \<noteq> [] \<Longrightarrow>
   \<not> eligible (JObj kvs)"
  by (auto simp: eligible_def has_cover_def Let_def strip_def)

lemma untitled_not_eligible:
  "\<not> truthy (dict_get kvs (ascii ''title'') (JStr [])) \<Longrightarrow> \<not> eligible (JObj kvs)"
  by (simp add: eligible_def)

lemma enrich_list:
  "enrich_books_with_ibs_covers caps (Json (JArr books)) w =
     finish (length books) (process_books caps (length books) [] books 0 0 (Json (JArr books)) w)"
  by (simp add: enrich_books_with_ibs_covers_def)

lemma not_eligible_untouched:
  fixes caps :: "('w, 'n) capabilities" and w :: 'w
  assumes "i < length books" and "\<not> eligible (books ! i)"
  defines "r \<equiv> enrich_books_with_ibs_covers caps (Json (JArr books)) w"
  shows "Suc i \<notin> set (calls (trace r))"
    and "\<forall>v \<in> set (writes (trace r)).
           \<exists>bs. v = JArr bs \<and> length bs = length books \<and> bs ! i = books ! i"
    and "length (books_now r) = length books \<and> books_now r ! i = books ! i"
    and "(disk_now r = Garbage \<and> raised r = Some UnicodeEncodeError)
         \<or> (\<exists>bs. disk_now r = Json (JArr bs) \<and> length bs = length books \<and> bs ! i = books ! i)"
proof -
  define p where "p = process_books caps (length books) [] books 0 0 (Json (JArr books)) w"
  have r: "r = finish (length books) p"
    by (simp add: r_def p_def enrich_list)
  note kept = records_kept [of caps "length books" "[]" books 0 0 "Json (JArr books)" w,
      folded p_def, simplified]
  have nth: "\<And>bs. list_all2 (\<lambda>a b. eligible a \<or> b = a) books bs \<Longrightarrow>
      length bs = length books \<and> bs ! i = books ! i"
    using assms(1,2) by (auto simp: list_all2_conv_all_nth)
  show "Suc i \<notin> set (calls (trace r))"
    using no_call_unless_eligible [OF assms(1,2), of 0 caps "length books" "[]" 0 "Json (JArr books)" w]
    by (simp add: r p_def)
  show w: "\<forall>v \<in> set (writes (trace r)).
           \<exists>bs. v = JArr bs \<and> length bs = length books \<and> bs ! i = books ! i"
    using kept nth by (simp add: r) blast
  show "length (books_now r) = length books \<and> books_now r ! i = books ! i"
    using kept nth by (simp add: r)
  show "(disk_now r = Garbage \<and> raised r = Some UnicodeEncodeError)
         \<or> (\<exists>bs. disk_now r = Json (JArr bs) \<and> length bs = length books \<and> bs ! i = books ! i)"
  proof -
    from kept consider "disk_now r = Json (JArr books)"
      | "disk_now r = Garbage \<and> raised r = Some UnicodeEncodeError"
      | "\<exists>v \<in> set (writes (trace r)). disk_now r = Json v"
      by (auto simp: r)
    then show ?thesis
    proof cases
      case 1
      then show ?thesis by blast
    next
      case 2
      then show ?thesis by blast
    next
      case 3
      with w show ?thesis by metis
    qed
  qed
qed

text \<open>
  C1, as amended: for every record whose \<open>cover_url\<close> is, at load time, a string that is
  not empty once stripped of whitespace, the loop never calls the resolver for that
  record (its number \<open>processed\<close> is never the number of a call), and the whole record,
  so its \<open>cover_url\<close>, is the same in every value written to the file and in the list in
  memory when the run ends. The file then holds a document with the record as it was,
  unless a save raised UnicodeEncodeError and left the file without a document.
\<close>

theorem covered_record_untouched:
  assumes "i < length books" and "books ! i = JObj kvs"
    and "dict_get kvs (ascii ''cover_url'') JNull = JStr s" and "strip s \<noteq> []"
  shows "Suc i \<notin> set (calls (trace (enrich_books_with_ibs_covers caps (Json (JArr books)) w)))
    \<and> (\<forall>v \<in> set (writes (trace (enrich_books_with_ibs_covers caps (Json (JArr books)) w))).
           \<exists>bs. v = JArr bs \<and> length bs = length books \<and> bs ! i = books ! i)
    \<and> length (books_now (enrich_books_with_ibs_covers caps (Json (JArr books)) w)) = length books
    \<and> books_now (enrich_books_with_ibs_covers caps (Json (JArr books)) w) ! i = books ! i
    \<and> ((disk_now (enrich_books_with_ibs_covers caps (Json (JArr books)) w) = Garbage
         \<and> raised (enrich_books_with_ibs_covers caps (Json (JArr books)) w) = Some UnicodeEncodeError)
       \<or> (\<exists>bs. disk_now (enrich_books_with_ibs_covers caps (Json (JArr books)) w) = Json (JArr bs)
           \<and> length bs = length books \<and> bs ! i = books ! i))"
proof -
  have "\<not> eligible (books ! i)"
    using assms(2-4) by (simp add: covered_not_eligible)
  from not_eligible_untouched [OF assms(1) this, of caps w] show ?thesis by simp
qed

text \<open>
  A record whose title is missing or false for Python (the empty string, \<open>null\<close>,
  \<open>false\<close>, zero, an empty list or object) is never looked up.
\<close>

lemma untitled_record_not_looked_up:
  assumes "i < length books" and "books ! i = JObj kvs"
    and "\<not> truthy (dict_get kvs (ascii ''title'') (JStr []))"
  shows "Suc i \<notin> set (calls (trace (enrich_books_with_ibs_covers caps (Json (JArr books)) w)))"
proof -
  have "\<not> eligible (books ! i)"
    using assms(2,3) by (simp add: untitled_not_eligible)
  from not_eligible_untouched(1) [OF assms(1) this, of caps w] show ?thesis .
qed


text \<open>Runs over small catalogs.\<close>

lemmas book_defs = book_T_def book_covered_def book_untitled_def book_S_def book_noted_def
lemmas enrich_defs = enrich_books_with_ibs_covers_def finish_def stopped_def after_def
  process_book_def has_cover_def encodes_def

lemma run_covered_then_T:
  "calls (trace (enrich_books_with_ibs_covers isbn_site (Json (JArr [book_covered, book_T])) 0)) = [2]
   \<and> writes (trace (enrich_books_with_ibs_covers isbn_site (Json (JArr [book_covered, book_T])) 0)) =
       [JArr [book_covered,
              JObj [(ascii ''title'', JStr (ascii ''T'')),
                    (ascii ''cover_url'',
                     JStr (ascii ''https://www.ibs.it/images/9788807034664_0_0_536_0_75.jpg''))]]]
   \<and> disk_now (enrich_books_with_ibs_covers isbn_site (Json (JArr [book_covered, book_T])) 0) =
       Json (JArr [book_covered,
              JObj [(ascii ''title'', JStr (ascii ''T'')),
                    (ascii ''cover_url'',
                     JStr (ascii ''https://www.ibs.it/images/9788807034664_0_0_536_0_75.jpg''))]])"
  by (simp add: enrich_defs book_defs site_defs str_defs resolver_defs)

lemma run_noted_then_covered:
  "calls (trace (enrich_books_with_ibs_covers isbn_site (Json (JArr [book_noted, book_covered])) 0)) = [1]
   \<and> writes (trace (enrich_books_with_ibs_covers isbn_site (Json (JArr [book_noted, book_covered])) 0)) = []
   \<and> raised (enrich_books_with_ibs_covers isbn_site (Json (JArr [book_noted, book_covered])) 0) =
       Some UnicodeEncodeError
   \<and> disk_now (enrich_books_with_ibs_covers isbn_site (Json (JArr [book_noted, book_covered])) 0) =
       Garbage"
  by (simp add: enrich_defs book_defs site_defs str_defs resolver_defs)

theorem covered_record_untouched_witness:
  "(0::nat) < length [book_covered, book_T]
   \<and> [book_covered, book_T] ! 0 =
       JObj [(ascii ''title'', JStr (ascii ''A'')), (ascii ''cover_url'', JStr (ascii ''http://c/a.jpg''))]
   \<and> dict_get [(ascii ''title'', JStr (ascii ''A'')), (ascii ''cover_url'', JStr (ascii ''http://c/a.jpg''))]
        (ascii ''cover_url'') JNull = JStr (ascii ''http://c/a.jpg'')
   \<and> strip (ascii ''http://c/a.jpg'') \<noteq> []
   \<and> Suc 0 \<notin> set (calls (trace (enrich_books_with_ibs_covers isbn_site
         (Json (JArr [book_covered, book_T])) 0)))
   \<and> calls (trace (enrich_books_with_ibs_covers isbn_site (Json (JArr [book_covered, book_T])) 0)) = [2]
   \<and> books_now (enrich_books_with_ibs_covers isbn_site (Json (JArr [book_covered, book_T])) 0) ! 0 =
       book_covered
   \<and> disk_now (enrich_books_with_ibs_covers isbn_site (Json (JArr [book_covered, book_T])) 0) =
       Json (JArr [book_covered,
              JObj [(ascii ''title'', JStr (ascii ''T'')),
                    (ascii ''cover_url'',
                     JStr (ascii ''https://www.ibs.it/images/9788807034664_0_0_536_0_75.jpg''))]])
   \<and> Suc 1 \<notin> set (calls (trace (enrich_books_with_ibs_covers isbn_site
         (Json (JArr [book_noted, book_covered])) 0)))
   \<and> books_now (enrich_books_with_ibs_covers isbn_site (Json (JArr [book_noted, book_covered])) 0) ! 1 =
       book_covered
   \<and> disk_now (enrich_books_with_ibs_covers isbn_site (Json (JArr [book_noted, book_covered])) 0) =
       Garbage"
proof -
  have h1: "(0::nat) < length [book_covered, book_T]" by simp
  have h2: "[book_covered, book_T] ! 0 =
       JObj [(ascii ''title'', JStr (ascii ''A'')), (ascii ''cover_url'', JStr (ascii ''http://c/a.jpg''))]"
    by (simp add: book_covered_def)
  have h3: "dict_get [(ascii ''title'', JStr (ascii ''A'')), (ascii ''cover_url'', JStr (ascii ''http://c/a.jpg''))]
        (ascii ''cover_url'') JNull = JStr (ascii ''http://c/a.jpg'')"
    by (simp add: ascii_def)
  have h4: "strip (ascii ''http://c/a.jpg'') \<noteq> []"
    by (simp add: ascii_def strip_def isspace_def)
  have k1: "(1::nat) < length [book_noted, book_covered]" by simp
  have k2: "[book_noted, book_covered] ! 1 =
       JObj [(ascii ''title'', JStr (ascii ''A'')), (ascii ''cover_url'', JStr (ascii ''http://c/a.jpg''))]"
    by (simp add: book_covered_def)
  note a = covered_record_untouched [OF h1 h2 h3 h4, of isbn_site 0]
  note b = covered_record_untouched [OF k1 k2 h3 h4, of isbn_site 0]
  have a1: "Suc 0 \<notin> set (calls (trace (enrich_books_with_ibs_covers isbn_site
         (Json (JArr [book_covered, book_T])) 0)))"
    and a2: "books_now (enrich_books_with_ibs_covers isbn_site (Json (JArr [book_covered, book_T])) 0) ! 0 =
       book_covered"
    using a by simp_all
  have b1: "Suc 1 \<notin> set (calls (trace (enrich_books_with_ibs_covers isbn_site
         (Json (JArr [book_noted, book_covered])) 0)))"
    and b2: "books_now (enrich_books_with_ibs_covers isbn_site (Json (JArr [book_noted, book_covered])) 0) ! 1 =
       book_covered"
    using b by simp_all
  show ?thesis
    using h1 h2 h3 h4 a1 a2 b1 b2 run_covered_then_T run_noted_then_covered by simp
qed

text \<open>
  C1 as stated fails: a \<open>cover_url\<close> of one space is a non-empty string, but line 131
  strips it before testing it, so the record is looked up and its \<open>cover_url\<close> is
  overwritten.
\<close>

theorem blank_cover_counterexample:
  "dict_get [(ascii ''title'', JStr (ascii ''T'')), (ascii ''cover_url'', JStr (ascii '' ''))]
      (ascii ''cover_url'') JNull = JStr (ascii '' '')
   \<and> ascii '' '' \<noteq> []
   \<and> calls (trace (enrich_books_with_ibs_covers isbn_site
        (Json (JArr [JObj [(ascii ''title'', JStr (ascii ''T'')), (ascii ''cover_url'', JStr (ascii '' ''))]])) 0))
       = [1]
   \<and> books_now (enrich_books_with_ibs_covers isbn_site
        (Json (JArr [JObj [(ascii ''title'', JStr (ascii ''T'')), (ascii ''cover_url'', JStr (ascii '' ''))]])) 0)
       = [JObj [(ascii ''title'', JStr (ascii ''T'')),
                (ascii ''cover_url'',
                 JStr (ascii ''https://www.ibs.it/images/9788807034664_0_0_536_0_75.jpg''))]]"
  by (simp add: enrich_defs site_defs str_defs resolver_defs)

text \<open>
  C6: a record whose title is blank or missing is never looked up. The code breaks this
  for a title that is blank but not empty: line 135 tests \<open>not title\<close> without
  stripping, where line 131 strips the cover before testing it. For the catalog of one
  record whose title is one space and which has no cover, the resolver is called for
  record 1, with a query of two spaces, and the record is given the cover of whatever
  the search returned first.
\<close>

theorem blank_title_looked_up:
  "strip (ascii '' '') = []
   \<and> dict_get [(ascii ''title'', JStr (ascii '' ''))] (ascii ''cover_url'') JNull = JNull
   \<and> calls (trace (enrich_books_with_ibs_covers isbn_site
        (Json (JArr [JObj [(ascii ''title'', JStr (ascii '' ''))]])) 0)) = [1]
   \<and> gets (trace (enrich_books_with_ibs_covers isbn_site
        (Json (JArr [JObj [(ascii ''title'', JStr (ascii '' ''))]])) 0)) =
       [ascii ''https://www.ibs.it/search/?ts=as&query=%20%20'',
        ascii ''https://www.ibs.it/libro/e/9788807034664'']
   \<and> books_now (enrich_books_with_ibs_covers isbn_site
        (Json (JArr [JObj [(ascii ''title'', JStr (ascii '' ''))]])) 0) =
       [JObj [(ascii ''title'', JStr (ascii '' '')),
              (ascii ''cover_url'',
               JStr (ascii ''https://www.ibs.it/images/9788807034664_0_0_536_0_75.jpg''))]]"
  by (simp add: enrich_defs site_defs str_defs resolver_defs)


section \<open>Saves\<close>

text \<open>
  In a run that no exception ends, the resolver calls and the saves are exactly, in the
  order of the catalog, one call for each eligible record followed at once by one save,
  whatever the resolver answered, and each save writes a list as long as the catalog.
\<close>

lemma length_writes_shape: "length (writes evs) = length (filter (\<lambda>x. x = None) (shape evs))"
  by (induction evs rule: shape.induct) simp_all

lemma length_eligible_from: "length (eligible_from k books) = length (filter eligible books)"
  by (induction books arbitrary: k) simp_all

lemma saves_in_expected_shape:
  "length (filter (\<lambda>x. x = None) (concat (map (\<lambda>m. [Some m, None]) ms))) = length ms"
  by (induction ms) simp_all

lemma completed_loop:
  "raised (process_books caps n seen todo processed updated d w) = None \<Longrightarrow>
   shape (trace (process_books caps n seen todo processed updated d w)) =
     concat (map (\<lambda>m. [Some m, None]) (eligible_from (Suc processed) todo))"
proof (induction todo arbitrary: seen processed updated d w)
  case Nil
  then show ?case by simp
next
  case (Cons book rest)
  show ?case
  proof (cases "process_book caps n (processed + 1) book w")
    case (Skipped evs)
    with Cons.prems process_book_skipped [OF Skipped]
      Cons.IH [of "seen @ [book]" "processed + 1" updated d w]
    show ?thesis by simp
  next
    case (Aborted e evs w')
    with Cons.prems show ?thesis by simp
  next
    case (Looked_up book' found evs w')
    note pb = process_book_looked_up [OF Looked_up]
    show ?thesis
    proof (cases "dumpable (JArr (seen @ book' # rest))")
      case True
      define upd where "upd = (if found then updated + 1 else updated)"
      note eq = looked_up_saved [OF Looked_up True, of updated d, folded upd_def]
      from Cons.prems eq pb
        Cons.IH [of "seen @ [book']" "processed + 1" upd "Json (JArr (seen @ book' # rest))" w']
      show ?thesis by simp
    next
      case False
      with Cons.prems looked_up_failed [OF Looked_up False, of updated d] show ?thesis by simp
    qed
  qed
qed

lemma rewrites_of_completed_run:
  assumes "raised (enrich_books_with_ibs_covers caps (Json (JArr books)) w) = None"
  shows "shape (trace (enrich_books_with_ibs_covers caps (Json (JArr books)) w)) =
        concat (map (\<lambda>m. [Some m, None]) (eligible_from 1 books))
    \<and> length (writes (trace (enrich_books_with_ibs_covers caps (Json (JArr books)) w))) =
        length (filter eligible books)
    \<and> (\<forall>v \<in> set (writes (trace (enrich_books_with_ibs_covers caps (Json (JArr books)) w))).
          \<exists>bs. v = JArr bs \<and> length bs = length books)"
proof -
  define p where "p = process_books caps (length books) [] books 0 0 (Json (JArr books)) w"
  have r: "enrich_books_with_ibs_covers caps (Json (JArr books)) w = finish (length books) p"
    by (simp add: p_def enrich_list)
  from assms have ok: "raised p = None" by (simp add: r)
  from completed_loop [of caps "length books" "[]" books 0 0 "Json (JArr books)" w] ok
  have sh: "shape (trace p) = concat (map (\<lambda>m. [Some m, None]) (eligible_from 1 books))"
    by (simp add: p_def)
  have len: "length (writes (trace p)) = length (filter eligible books)"
    by (simp add: length_writes_shape sh saves_in_expected_shape length_eligible_from)
  have full: "\<forall>v \<in> set (writes (trace p)). \<exists>bs. v = JArr bs \<and> length bs = length books"
  proof
    fix v assume "v \<in> set (writes (trace p))"
    with records_kept [of caps "length books" "[]" books 0 0 "Json (JArr books)" w, folded p_def]
    obtain bs where "v = JArr bs" and "list_all2 (\<lambda>a b. eligible a \<or> b = a) books bs"
      by auto
    then show "\<exists>bs. v = JArr bs \<and> length bs = length books"
      by (auto dest: list_all2_lengthD)
  qed
  show ?thesis
    using sh len full by (simp add: r)
qed

lemma eligible_examples:
  "eligible book_T" "\<not> eligible book_covered" "eligible book_S" "eligible book_noted"
  by (simp_all add: eligible_def has_cover_def book_defs ascii_def strip_def isspace_def)

text \<open>
  C2: a run over a catalog with N eligible records rewrites the file in full exactly N
  times, once after each eligible record. The code breaks this on a catalog that holds a
  lone surrogate. With U+DC80 in a field \<open>note\<close> of the first of two eligible records,
  the resolver is called for record 1, the save of line 153 raises UnicodeEncodeError and
  the run ends: no rewrite for two eligible records, and the file is left without a
  document. With U+DC80 as the title of the first record, the resolver itself raises
  (\<open>quote\<close> of line 24 stands outside the \<open>try\<close>) and the run ends before any save.
\<close>

theorem surrogate_stops_rewrites:
  "eligible_from 1 [book_noted, book_T] = [1, 2]
   \<and> raised (enrich_books_with_ibs_covers isbn_site (Json (JArr [book_noted, book_T])) 0) =
       Some UnicodeEncodeError
   \<and> shape (trace (enrich_books_with_ibs_covers isbn_site (Json (JArr [book_noted, book_T])) 0)) =
       [Some 1]
   \<and> writes (trace (enrich_books_with_ibs_covers isbn_site (Json (JArr [book_noted, book_T])) 0)) = []
   \<and> disk_now (enrich_books_with_ibs_covers isbn_site (Json (JArr [book_noted, book_T])) 0) = Garbage
   \<and> eligible_from 1 [book_S, book_T] = [1, 2]
   \<and> raised (enrich_books_with_ibs_covers isbn_site (Json (JArr [book_S, book_T])) 0) =
       Some UnicodeEncodeError
   \<and> shape (trace (enrich_books_with_ibs_covers isbn_site (Json (JArr [book_S, book_T])) 0)) =
       [Some 1]
   \<and> writes (trace (enrich_books_with_ibs_covers isbn_site (Json (JArr [book_S, book_T])) 0)) = []
   \<and> disk_now (enrich_books_with_ibs_covers isbn_site (Json (JArr [book_S, book_T])) 0) =
       Json (JArr [book_S, book_T])"
  by (simp add: eligible_examples)
     (simp add: enrich_defs book_defs site_defs str_defs resolver_defs)

text \<open>
  A run that counts no update has changed nothing: each of its saves writes the loaded
  value, and the file holds that value unless a save raised.
\<close>

lemma updated_grows:
  "updated \<le> updated_now (process_books caps n seen todo processed updated d w)"
proof (induction todo arbitrary: seen processed updated d w)
  case Nil
  then show ?case by simp
next
  case (Cons book rest)
  show ?case
  proof (cases "process_book caps n (processed + 1) book w")
    case (Skipped evs)
    with Cons.IH [of updated "seen @ [book]" "processed + 1" d w] show ?thesis by simp
  next
    case (Aborted e evs w')
    then show ?thesis by simp
  next
    case (Looked_up book' found evs w')
    show ?thesis
    proof (cases "dumpable (JArr (seen @ book' # rest))")
      case True
      with looked_up_saved [OF Looked_up True, of updated d]
        Cons.IH [of "if found then updated + 1 else updated" "seen @ [book']" "processed + 1"
          "Json (JArr (seen @ book' # rest))" w']
      show ?thesis by (simp split: if_splits)
    next
      case False
      with looked_up_failed [OF Looked_up False, of updated d] show ?thesis by simp
    qed
  qed
qed

lemma nothing_updated:
  "updated_now (process_books caps n seen todo processed updated d w) = updated \<Longrightarrow>
   (\<forall>v \<in> set (writes (trace (process_books caps n seen todo processed updated d w))).
       v = JArr (seen @ todo))
   \<and> books_now (process_books caps n seen todo processed updated d w) = seen @ todo
   \<and> (disk_now (process_books caps n seen todo processed updated d w) = d
      \<or> disk_now (process_books caps n seen todo processed updated d w) = Json (JArr (seen @ todo))
      \<or> (disk_now (process_books caps n seen todo processed updated d w) = Garbage
         \<and> raised (process_books caps n seen todo processed updated d w) = Some UnicodeEncodeError))"
proof (induction todo arbitrary: seen processed d w)
  case Nil
  then show ?case by simp
next
  case (Cons book rest)
  show ?case
  proof (cases "process_book caps n (processed + 1) book w")
    case (Skipped evs)
    with Cons.prems Cons.IH [of "seen @ [book]" "processed + 1" d w]
      process_book_skipped [OF Skipped]
    show ?thesis by simp
  next
    case (Aborted e evs w')
    with process_book_aborted [OF Aborted] show ?thesis by simp
  next
    case (Looked_up book' found evs w')
    note pb = process_book_looked_up [OF Looked_up]
    show ?thesis
    proof (cases "dumpable (JArr (seen @ book' # rest))")
      case False
      note eq = looked_up_failed [OF Looked_up False, of updated d]
      from Cons.prems eq have "\<not> found" by (auto split: if_splits)
      with pb eq show ?thesis by simp
    next
      case True
      note eq = looked_up_saved [OF Looked_up True, of updated d]
      show ?thesis
      proof (cases found)
        case found: True
        with eq Cons.prems
          updated_grows [of "updated + 1" caps n "seen @ [book']" rest "processed + 1"
            "Json (JArr (seen @ book' # rest))" w']
        show ?thesis by simp
      next
        case nf: False
        with pb have same: "book' = book" and wr: "writes evs = []"
          by simp_all
        with nf eq Cons.prems
          Cons.IH [of "seen @ [book]" "processed + 1" "Json (JArr (seen @ book # rest))" w']
        show ?thesis by auto
      qed
    qed
  qed
qed

lemma unchanged_run_writes_loaded:
  assumes "updated_now (enrich_books_with_ibs_covers caps (Json v) w) = 0"
  shows "(\<forall>x \<in> set (writes (trace (enrich_books_with_ibs_covers caps (Json v) w))). x = v)
     \<and> (disk_now (enrich_books_with_ibs_covers caps (Json v) w) = Json v
        \<or> (disk_now (enrich_books_with_ibs_covers caps (Json v) w) = Garbage
           \<and> raised (enrich_books_with_ibs_covers caps (Json v) w) = Some UnicodeEncodeError))"
proof (cases v)
  case (JArr bs)
  with assms nothing_updated [of caps "length bs" "[]" bs 0 0 "Json (JArr bs)" w]
  show ?thesis by (simp add: enrich_list)
qed (simp_all add: enrich_books_with_ibs_covers_def stopped_def)

text \<open>
  C9: saving the loaded catalog with no change gives back the same records in the same
  order with the same fields. The code breaks this on a catalog that holds a lone
  surrogate: with U+DC80 in a field \<open>note\<close> of an eligible record for which nothing
  is found, no record is changed (\<open>updated\<close> stays 0 and the list in memory is the loaded
  one), the save of line 153 raises UnicodeEncodeError on the unchanged catalog, and the
  file, truncated when it was opened, is left without a document: the covered second
  record is lost with it.
\<close>

theorem failed_save_loses_catalog:
  "updated_now (enrich_books_with_ibs_covers silent_site (Json (JArr [book_noted, book_covered])) 0) = 0
   \<and> books_now (enrich_books_with_ibs_covers silent_site (Json (JArr [book_noted, book_covered])) 0) =
       [book_noted, book_covered]
   \<and> raised (enrich_books_with_ibs_covers silent_site (Json (JArr [book_noted, book_covered])) 0) =
       Some UnicodeEncodeError
   \<and> last (trace (enrich_books_with_ibs_covers silent_site (Json (JArr [book_noted, book_covered])) 0)) =
       Failed_write (JArr [book_noted, book_covered])
   \<and> writes (trace (enrich_books_with_ibs_covers silent_site (Json (JArr [book_noted, book_covered])) 0)) = []
   \<and> disk_now (enrich_books_with_ibs_covers silent_site (Json (JArr [book_noted, book_covered])) 0) =
       Garbage"
  by (simp add: enrich_defs book_defs site_defs str_defs resolver_defs)

end
